theory Spec2Isabelle
  imports Main "HOL-Library.Multiset" "HOL-Library.Word"
begin

section \<open>Data model\<close>

text \<open>
  The Go struct \<^verbatim>\<open>measurement\<close>: nine \<^verbatim>\<open>int\<close> fields.  Go's \<^verbatim>\<open>==\<close> on
  the struct compares all nine fields, which is equality of the record.
\<close>

record measurement =
  Header :: int
  Systolic :: int
  Diastolic :: int
  Pulse :: int
  Month :: int
  Day :: int
  Hour :: int
  Minute :: int
  Year :: int

text \<open>The zero value of the struct (\<^verbatim>\<open>var m measurement\<close>).\<close>

definition zeroMeasurement :: measurement where
  "zeroMeasurement = \<lparr>Header = 0, Systolic = 0, Diastolic = 0, Pulse = 0,
     Month = 0, Day = 0, Hour = 0, Minute = 0, Year = 0\<rparr>"

section \<open>Merging (\<^verbatim>\<open>mergeItems\<close>)\<close>

text \<open>
  The closure \<^verbatim>\<open>isLater\<close>: a \<^verbatim>\<open>switch\<close> whose cases are tried in order.
\<close>

definition isLater :: "measurement \<Rightarrow> measurement \<Rightarrow> bool" where
  "isLater mi mj =
     (if Year mi < Year mj then False
      else if Year mi > Year mj then True
      else if Month mi < Month mj then False
      else if Month mi > Month mj then True
      else if Day mi < Day mj then False
      else if Day mi > Day mj then True
      else if Hour mi < Hour mj then False
      else if Hour mi > Hour mj then True
      else if Minute mi < Minute mj then False
      else True)"

text \<open>
  The closure \<^verbatim>\<open>insertIfMissing\<close>.  The loop walks \<^verbatim>\<open>l\<close> from the front:
  it breaks at the first element that is not later than \<^verbatim>\<open>m\<close> and \<^verbatim>\<open>m\<close> is
  spliced in before that element; it returns \<^verbatim>\<open>l\<close> unchanged when it meets an
  element equal to \<^verbatim>\<open>m\<close>; when the loop runs to the end, \<^verbatim>\<open>m\<close> is appended.
  On the empty slice the loop body never runs, \<^verbatim>\<open>later\<close> is false, \<^verbatim>\<open>i\<close> is 0
  and the splice yields the one-element slice.

  \<open>scanInsert\<close> is the loop on the part of the slice not yet visited; it
  returns \<open>None\<close> for the early \<^verbatim>\<open>return l\<close>.
\<close>

fun scanInsert :: "measurement list \<Rightarrow> measurement \<Rightarrow> measurement list option" where
  "scanInsert [] m = Some [m]"
| "scanInsert (x # xs) m =
     (if \<not> isLater x m then Some (m # x # xs)
      else if x = m then None
      else map_option (\<lambda>r. x # r) (scanInsert xs m))"

definition insertIfMissing :: "measurement list \<Rightarrow> measurement \<Rightarrow> measurement list" where
  "insertIfMissing l m = (case scanInsert l m of None \<Rightarrow> l | Some r \<Rightarrow> r)"

text \<open>
  \<^verbatim>\<open>mergeItems\<close>.  \<^verbatim>\<open>sort.Slice\<close> belongs to Go's standard library, not to the
  repository: it is the parameter \<open>sortSlice\<close>, called with the comparison
  the source passes to it.  The two \<^verbatim>\<open>for ... range\<close> loops are left folds.
\<close>

definition mergeItems ::
  "((measurement \<Rightarrow> measurement \<Rightarrow> bool) \<Rightarrow> measurement list \<Rightarrow> measurement list) \<Rightarrow>
   measurement list \<Rightarrow> measurement list \<Rightarrow> measurement list" where
  "mergeItems sortSlice newItems oldItems =
     (let oldSorted = sortSlice isLater oldItems;
          newSorted = sortSlice isLater newItems;
          result = foldl insertIfMissing [] newSorted
      in foldl insertIfMissing result oldSorted)"

text \<open>
  What the library routine does on short slices.  For a slice of at most six
  elements every release of Go's \<^verbatim>\<open>sort\<close> package since \<^verbatim>\<open>sort.Slice\<close>
  exists runs plain insertion sort, touching the slice only through swaps:
  \<^verbatim>\<open>
  for i := a + 1; i < b; i++ {
      for j := i; j > a && less(j, j-1); j-- { swap(j, j-1) }
  }
  \<close>
  \<open>insertRev\<close> is the inner loop on the reversed sorted prefix: the new
  element moves left for as long as \<open>lessFn\<close> holds between it and its left
  neighbour.  This routine is used for concrete runs only; the general results
  below hold for every \<open>sortSlice\<close>.
\<close>

fun insertRev :: "('a \<Rightarrow> 'a \<Rightarrow> bool) \<Rightarrow> 'a list \<Rightarrow> 'a \<Rightarrow> 'a list" where
  "insertRev lessFn [] x = [x]"
| "insertRev lessFn (y # ys) x = (if lessFn x y then y # insertRev lessFn ys x else x # y # ys)"

definition insertionSort :: "('a \<Rightarrow> 'a \<Rightarrow> bool) \<Rightarrow> 'a list \<Rightarrow> 'a list" where
  "insertionSort lessFn xs = rev (foldl (insertRev lessFn) [] xs)"

text \<open>Three sample records; \<open>sampleA\<close> and \<open>sampleB\<close> share their timestamp.\<close>

definition sampleA :: measurement where
  "sampleA = \<lparr>Header = 0, Systolic = 128, Diastolic = 82, Pulse = 64,
     Month = 6, Day = 1, Hour = 8, Minute = 30, Year = 2016\<rparr>"

definition sampleB :: measurement where
  "sampleB = \<lparr>Header = 0, Systolic = 131, Diastolic = 85, Pulse = 70,
     Month = 6, Day = 1, Hour = 8, Minute = 30, Year = 2016\<rparr>"

definition sampleC :: measurement where
  "sampleC = \<lparr>Header = 0, Systolic = 117, Diastolic = 76, Pulse = 58,
     Month = 6, Day = 2, Hour = 21, Minute = 5, Year = 2016\<rparr>"

definition sampleD :: measurement where
  "sampleD = \<lparr>Header = 0, Systolic = 122, Diastolic = 79, Pulse = 61,
     Month = 5, Day = 20, Hour = 7, Minute = 15, Year = 2016\<rparr>"

text \<open>
  Two records on which the order of the fields and the order of the timestamps
  disagree.  The device stores whatever day number it was given, and
  \<^verbatim>\<open>time.Date\<close> reads 30 February 2016 as 1 March 2016.
\<close>

definition sampleE :: measurement where
  "sampleE = \<lparr>Header = 0, Systolic = 125, Diastolic = 80, Pulse = 66,
     Month = 3, Day = 1, Hour = 0, Minute = 0, Year = 2016\<rparr>"

definition sampleF :: measurement where
  "sampleF = \<lparr>Header = 0, Systolic = 119, Diastolic = 77, Pulse = 63,
     Month = 2, Day = 30, Hour = 0, Minute = 1, Year = 2016\<rparr>"

section \<open>Machine integers\<close>

text \<open>
  Go's \<^verbatim>\<open>int\<close> is a 64-bit two's complement integer on the platforms the
  program targets.  The fields of a record are modelled as \<open>int\<close>; where the
  source adds, subtracts or multiplies them the wrap-around is written out.
\<close>

definition wrap64 :: "int \<Rightarrow> int" where
  "wrap64 x = (x + 2 ^ 63) mod 2 ^ 64 - 2 ^ 63"

section \<open>WHO classification (\<^verbatim>\<open>WHOClass\<close>)\<close>

text \<open>The \<^verbatim>\<open>iota\<close> constants and the two label tables.\<close>

definition BPOptimal :: int where "BPOptimal = 0"
definition BPNormal :: int where "BPNormal = 1"
definition BPHighNormal :: int where "BPHighNormal = 2"
definition BPMildHypertension :: int where "BPMildHypertension = 3"
definition BPModerateHypertension :: int where "BPModerateHypertension = 4"
definition BPSevereHypertension :: int where "BPSevereHypertension = 5"

definition IsolatedSystolicHypertension :: int where "IsolatedSystolicHypertension = 1"

definition WHOPressureClassification :: "string list" where
  "WHOPressureClassification =
     [''Optimal'', ''Normal'', ''High-Normal'', ''Mild Hypertension'',
      ''Moderate Hypertension'', ''Severe Hypertension'']"

definition WHOPressureFlag :: "string list" where
  "WHOPressureFlag = ['''', ''Isolated Systolic Hypertension'']"

text \<open>
  The method \<^verbatim>\<open>WHOClass\<close>: the flag is computed first, then the \<^verbatim>\<open>switch\<close>
  returns at its first true case.
\<close>

definition WHOClass :: "measurement \<Rightarrow> int \<times> int" where
  "WHOClass m =
     (let flag = (if Systolic m \<ge> 140 \<and> Diastolic m < 90
                  then IsolatedSystolicHypertension else 0)
      in if Systolic m < 120 \<and> Diastolic m < 80 then (BPOptimal, flag)
         else if Systolic m < 130 \<and> Diastolic m < 85 then (BPNormal, flag)
         else if Systolic m < 140 \<and> Diastolic m < 90 then (BPHighNormal, flag)
         else if Systolic m < 160 \<and> Diastolic m < 100 then (BPMildHypertension, flag)
         else if Systolic m < 180 \<and> Diastolic m < 110 then (BPModerateHypertension, flag)
         else (BPSevereHypertension, flag))"

definition WHOClassString :: "measurement \<Rightarrow> string" where
  "WHOClassString m =
     (case WHOClass m of (class, flag) \<Rightarrow>
        let flagStr = (if flag = IsolatedSystolicHypertension
                       then '' ('' @ WHOPressureFlag ! nat flag @ '')'' else '''')
        in WHOPressureClassification ! nat class @ flagStr)"

text \<open>
  The specification's reading of the classification, to compare \<^verbatim>\<open>WHOClass\<close>
  with: an ordered table of rows (systolic bound, diastolic bound, category),
  the first row whose two bounds both lie strictly above the reading wins, and
  a reading that matches no row is Severe Hypertension.
\<close>

definition whoThresholds :: "(int \<times> int \<times> int) list" where
  "whoThresholds =
     [(120, 80, BPOptimal), (130, 85, BPNormal), (140, 90, BPHighNormal),
      (160, 100, BPMildHypertension), (180, 110, BPModerateHypertension)]"

fun firstMatchingRow :: "(int \<times> int \<times> int) list \<Rightarrow> int \<Rightarrow> int \<Rightarrow> int" where
  "firstMatchingRow [] sys dia = BPSevereHypertension"
| "firstMatchingRow ((maxSys, maxDia, category) # rows) sys dia =
     (if sys < maxSys \<and> dia < maxDia then category else firstMatchingRow rows sys dia)"

section \<open>Time-of-day filter (in \<^verbatim>\<open>main\<close>)\<close>

record simpleTime =
  hour :: int
  minute :: int

text \<open>The expression \<^verbatim>\<open>h*60 + m\<close> on Go integers.\<close>

definition minuteOfDay :: "int \<Rightarrow> int \<Rightarrow> int" where
  "minuteOfDay h mi = wrap64 (wrap64 (h * 60) + mi)"

text \<open>The closure \<^verbatim>\<open>compare\<close>.\<close>

definition compare :: "measurement \<Rightarrow> simpleTime \<Rightarrow> int" where
  "compare m t =
     (if minuteOfDay (Hour m) (Minute m) < minuteOfDay (hour t) (minute t) then - 1
      else if minuteOfDay (Hour m) (Minute m) > minuteOfDay (hour t) (minute t) then 1
      else 0)"

text \<open>
  The body of the loop over \<^verbatim>\<open>items\<close>: \<^verbatim>\<open>continue\<close> leaves \<^verbatim>\<open>newItems\<close> as
  it is, otherwise the record is appended.  \<open>fromTime\<close> and \<open>toTime\<close> are
  the texts of the two command-line flags (empty when a flag is not given),
  \<open>startTime\<close> and \<open>endTime\<close> the times parsed from them; \<open>inverted\<close> is the
  variable \<^verbatim>\<open>inv\<close>.
\<close>

definition timeFilterStep ::
  "string \<Rightarrow> string \<Rightarrow> simpleTime \<Rightarrow> simpleTime \<Rightarrow> bool \<Rightarrow>
   measurement list \<Rightarrow> measurement \<Rightarrow> measurement list" where
  "timeFilterStep fromTime toTime startTime endTime inverted newItems data =
     (if inverted then
        (if compare data startTime = - 1 \<and> compare data endTime = 1 then newItems
         else newItems @ [data])
      else if fromTime \<noteq> '''' \<and> compare data startTime = - 1 then newItems
      else if toTime \<noteq> '''' \<and> compare data endTime = 1 then newItems
      else newItems @ [data])"

definition timeFilter ::
  "string \<Rightarrow> string \<Rightarrow> simpleTime \<Rightarrow> simpleTime \<Rightarrow> measurement list \<Rightarrow> measurement list" where
  "timeFilter fromTime toTime startTime endTime items =
     (if fromTime \<noteq> '''' \<or> toTime \<noteq> '''' then
        (let inverted = (fromTime \<noteq> '''' \<and> toTime \<noteq> '''' \<and>
                    minuteOfDay (hour startTime) (minute startTime)
                      > minuteOfDay (hour endTime) (minute endTime))
         in foldl (timeFilterStep fromTime toTime startTime endTime inverted) [] items)
      else items)"

text \<open>Minute of the day of a record and of a bound, as the program computes them.\<close>

definition mins :: "measurement \<Rightarrow> int" where
  "mins m = minuteOfDay (Hour m) (Minute m)"

definition tmins :: "simpleTime \<Rightarrow> int" where
  "tmins t = minuteOfDay (hour t) (minute t)"

text \<open>A record taken at the given hour and minute.\<close>

definition recordAt :: "int \<Rightarrow> int \<Rightarrow> measurement" where
  "recordAt h mi = sampleA\<lparr>Hour := h, Minute := mi\<rparr>"

section \<open>Date-range filter (in \<^verbatim>\<open>main\<close>)\<close>

text \<open>
  An instant (\<^verbatim>\<open>time.Time\<close>) is modelled as the number of nanoseconds since
  the zero instant of the library, January 1 of year 1, 00:00 UTC, so that
  \<^verbatim>\<open>IsZero\<close> is equality with 0.  \<^verbatim>\<open>Sub\<close> returns a 64-bit duration and
  saturates instead of wrapping.
\<close>

definition maxDuration :: int where "maxDuration = 2 ^ 63 - 1"
definition minDuration :: int where "minDuration = - (2 ^ 63)"

definition timeSub :: "int \<Rightarrow> int \<Rightarrow> int" where
  "timeSub t u = (if t - u > maxDuration then maxDuration
                  else if t - u < minDuration then minDuration else t - u)"

definition IsZero :: "int \<Rightarrow> bool" where
  "IsZero t = (t = 0)"

text \<open>
  Both loops of the filter look for the first index at which a test holds and
  \<^verbatim>\<open>break\<close> there; when the test holds nowhere the loop ends without touching
  \<^verbatim>\<open>items\<close>.
\<close>

fun firstIndex :: "('a \<Rightarrow> bool) \<Rightarrow> 'a list \<Rightarrow> nat option" where
  "firstIndex P [] = None"
| "firstIndex P (x # xs) = (if P x then Some 0 else map_option Suc (firstIndex P xs))"

text \<open>
  The value \<^verbatim>\<open>time.Date(Year, Month, Day, Hour, Minute, 0, 0, time.Local)\<close>
  of a record depends on the library and on the time zone of the machine: it is
  the parameter \<open>timeDate\<close>.  First loop: \<^verbatim>\<open>items = items[0:i]\<close> at the first
  record before \<^verbatim>\<open>startDate\<close>.  Second loop: \<^verbatim>\<open>items = items[i:]\<close> at the
  first record not after \<^verbatim>\<open>endDate\<close>.
\<close>

definition fromDateFilter ::
  "(measurement \<Rightarrow> int) \<Rightarrow> int \<Rightarrow> measurement list \<Rightarrow> measurement list" where
  "fromDateFilter timeDate startDate items =
     (if \<not> IsZero startDate then
        (case firstIndex (\<lambda>m. timeSub (timeDate m) startDate < 0) items of
           Some i \<Rightarrow> take i items
         | None \<Rightarrow> items)
      else items)"

definition toDateFilter ::
  "(measurement \<Rightarrow> int) \<Rightarrow> int \<Rightarrow> measurement list \<Rightarrow> measurement list" where
  "toDateFilter timeDate endDate items =
     (if \<not> IsZero endDate then
        (case firstIndex (\<lambda>m. timeSub (timeDate m) endDate \<le> 0) items of
           Some i \<Rightarrow> drop i items
         | None \<Rightarrow> items)
      else items)"

definition dateFilter ::
  "(measurement \<Rightarrow> int) \<Rightarrow> int \<Rightarrow> int \<Rightarrow> measurement list \<Rightarrow> measurement list" where
  "dateFilter timeDate startDate endDate items =
     toDateFilter timeDate endDate (fromDateFilter timeDate startDate items)"

text \<open>
  For concrete runs: \<^verbatim>\<open>time.Date\<close> in the UTC zone.  \<open>daysFromCivil\<close> counts
  the days from January 1 of year 1 in the proleptic Gregorian calendar; like
  the library it accepts months and days outside their usual ranges (month 13
  is January of the next year, February 31 is thirty days after February 1).
\<close>

definition daysFromCivil :: "int \<Rightarrow> int \<Rightarrow> int \<Rightarrow> int" where
  "daysFromCivil y m d =
     (let y1 = y + (m - 1) div 12;
          m1 = (m - 1) mod 12 + 1;
          y2 = (if m1 \<le> 2 then y1 - 1 else y1);
          era = y2 div 400;
          yoe = y2 - era * 400;
          doy = (153 * (if m1 > 2 then m1 - 3 else m1 + 9) + 2) div 5 + d - 1;
          doe = yoe * 365 + yoe div 4 - yoe div 100 + doy
      in era * 146097 + doe - 306)"

definition utcDate :: "measurement \<Rightarrow> int" where
  "utcDate m =
     (((daysFromCivil (Year m) (Month m) (Day m) * 24 + Hour m) * 60 + Minute m) * 60)
       * 1000000000"

section \<open>Statistics\<close>

text \<open>
  Errors.  \<^verbatim>\<open>fmt.Errorf\<close> builds an error from its text; an error reported by
  the serial port is a value of the operating system or of the serial library.
\<close>

datatype err = Errorf string | ChannelError string

text \<open>
  The statistics go through \<^verbatim>\<open>float64\<close>.  Floating-point arithmetic is not
  modelled: the operations the source uses are the fields of a record the
  functions take as a parameter, over a type \<open>'f\<close> of floating-point values.
  \<open>fconst n d\<close> is the literal n/d (\<^verbatim>\<open>0.5\<close> is \<open>fconst 5 10\<close>).
\<close>

record 'f float64 =
  ofInt :: "int \<Rightarrow> 'f"
  toInt :: "'f \<Rightarrow> int"
  fconst :: "int \<Rightarrow> int \<Rightarrow> 'f"
  fadd :: "'f \<Rightarrow> 'f \<Rightarrow> 'f"
  fdiv :: "'f \<Rightarrow> 'f \<Rightarrow> 'f"
  mathPow :: "'f \<Rightarrow> 'f \<Rightarrow> 'f"
  mathSqrt :: "'f \<Rightarrow> 'f"
  mathAbs :: "'f \<Rightarrow> 'f"

definition roundDivision :: "'f float64 \<Rightarrow> int \<Rightarrow> int \<Rightarrow> int" where
  "roundDivision fl a b = toInt fl (fadd fl (fconst fl 5 10) (fdiv fl (ofInt fl a) (ofInt fl b)))"

text \<open>
  \<^verbatim>\<open>average\<close>.  \<open>addItem\<close> is the body of the summing loop on the pair
  (\<^verbatim>\<open>avgMeasure\<close>, \<^verbatim>\<open>avgCount\<close>); the count cannot overflow, a slice has
  fewer than \<open>2 ^ 63\<close> elements.
\<close>

definition addItem :: "measurement \<times> int \<Rightarrow> measurement \<Rightarrow> measurement \<times> int" where
  "addItem acc data =
     (fst acc\<lparr>Systolic := wrap64 (Systolic (fst acc) + Systolic data),
               Diastolic := wrap64 (Diastolic (fst acc) + Diastolic data),
               Pulse := wrap64 (Pulse (fst acc) + Pulse data)\<rparr>,
      snd acc + 1)"

definition average :: "'f float64 \<Rightarrow> measurement list \<Rightarrow> measurement \<times> err option" where
  "average fl items =
     (let acc = foldl addItem (zeroMeasurement, 0) items;
          avgMeasure = fst acc;
          avgCount = snd acc
      in if avgCount = 0
         then (avgMeasure, Some (Errorf ''cannot compute average: empty set''))
         else (avgMeasure\<lparr>Systolic := roundDivision fl (Systolic avgMeasure) avgCount,
                          Diastolic := roundDivision fl (Diastolic avgMeasure) avgCount,
                          Pulse := roundDivision fl (Pulse avgMeasure) avgCount\<rparr>, None))"

text \<open>Go's integer division truncates towards zero.\<close>

definition quot :: "int \<Rightarrow> int \<Rightarrow> int" where
  "quot a b = sgn a * sgn b * (\<bar>a\<bar> div \<bar>b\<bar>)"

text \<open>
  \<^verbatim>\<open>intMedian\<close> indexes the slice; an index out of range is a run-time panic,
  the value \<open>None\<close>.
\<close>

definition intMedian :: "int list \<Rightarrow> int option" where
  "intMedian numbers =
     (let middle = length numbers div 2 in
      if middle \<ge> length numbers then None
      else let med = numbers ! middle in
        if length numbers mod 2 = 0
        then (if middle = 0 then None
              else Some (quot (wrap64 (med + numbers ! (middle - 1))) 2))
        else Some med)"

text \<open>
  \<^verbatim>\<open>median\<close>; \<^verbatim>\<open>sort.Ints\<close> sorts integers in increasing order.  The result
  is \<open>None\<close> if \<^verbatim>\<open>intMedian\<close> panics.
\<close>

definition median :: "measurement list \<Rightarrow> (measurement \<times> err option) option" where
  "median items =
     (if length items = 0
      then Some (zeroMeasurement, Some (Errorf ''cannot compute average: empty set''))
      else
        let sys = sort (map Systolic items);
            dia = sort (map Diastolic items);
            pul = sort (map Pulse items)
        in Option.bind (intMedian sys) (\<lambda>s.
           Option.bind (intMedian dia) (\<lambda>d.
           Option.bind (intMedian pul) (\<lambda>p.
             Some (zeroMeasurement\<lparr>Systolic := s, Diastolic := d, Pulse := p\<rparr>, None)))))"

text \<open>\<^verbatim>\<open>stdDeviation\<close>; \<open>addSquares\<close> is the body of its loop.\<close>

definition addSquares ::
  "'f float64 \<Rightarrow> measurement \<Rightarrow> 'f \<times> 'f \<times> 'f \<Rightarrow> measurement \<Rightarrow> 'f \<times> 'f \<times> 'f" where
  "addSquares fl avg sums data =
     (case sums of (sumSys, sumDia, sumPul) \<Rightarrow>
        (fadd fl sumSys
           (mathPow fl (ofInt fl (wrap64 (Systolic data - Systolic avg))) (ofInt fl 2)),
         fadd fl sumDia
           (mathPow fl (ofInt fl (wrap64 (Diastolic data - Diastolic avg))) (ofInt fl 2)),
         fadd fl sumPul
           (mathPow fl (ofInt fl (wrap64 (Pulse data - Pulse avg))) (ofInt fl 2))))"

definition stdDeviation :: "'f float64 \<Rightarrow> measurement list \<Rightarrow> measurement \<times> err option" where
  "stdDeviation fl items =
     (if length items \<le> 1
      then (zeroMeasurement, Some (Errorf ''cannot compute deviation: set too small''))
      else
        let avg = fst (average fl items); err = snd (average fl items) in
        if err \<noteq> None then (zeroMeasurement, err)
        else
          (case foldl (addSquares fl avg) (fconst fl 0 1, fconst fl 0 1, fconst fl 0 1) items of
             (sumSys, sumDia, sumPul) \<Rightarrow>
               (zeroMeasurement
                  \<lparr>Systolic :=
                     toInt fl (mathSqrt fl (fdiv fl sumSys (ofInt fl (int (length items))))),
                   Diastolic :=
                     toInt fl (mathSqrt fl (fdiv fl sumDia (ofInt fl (int (length items))))),
                   Pulse :=
                     toInt fl (mathSqrt fl (fdiv fl sumPul (ofInt fl (int (length items)))))\<rparr>,
                None)))"

text \<open>\<^verbatim>\<open>avgAbsoluteDeviation\<close>; \<open>addAbs\<close> is the body of its loop.\<close>

definition addAbs ::
  "'f float64 \<Rightarrow> measurement \<Rightarrow> 'f \<times> 'f \<times> 'f \<Rightarrow> measurement \<Rightarrow> 'f \<times> 'f \<times> 'f" where
  "addAbs fl avg sums data =
     (case sums of (sumSys, sumDia, sumPul) \<Rightarrow>
        (fadd fl sumSys (mathAbs fl (ofInt fl (wrap64 (Systolic data - Systolic avg)))),
         fadd fl sumDia (mathAbs fl (ofInt fl (wrap64 (Diastolic data - Diastolic avg)))),
         fadd fl sumPul (mathAbs fl (ofInt fl (wrap64 (Pulse data - Pulse avg))))))"

definition avgAbsoluteDeviation ::
  "'f float64 \<Rightarrow> measurement list \<Rightarrow> measurement \<times> err option" where
  "avgAbsoluteDeviation fl items =
     (if length items \<le> 1
      then (zeroMeasurement, Some (Errorf ''cannot compute deviation: set too small''))
      else
        let avg = fst (average fl items); err = snd (average fl items) in
        if err \<noteq> None then (zeroMeasurement, err)
        else
          (case foldl (addAbs fl avg) (fconst fl 0 1, fconst fl 0 1, fconst fl 0 1) items of
             (sumSys, sumDia, sumPul) \<Rightarrow>
               (zeroMeasurement
                  \<lparr>Systolic := toInt fl (fdiv fl sumSys (ofInt fl (int (length items)))),
                   Diastolic := toInt fl (fdiv fl sumDia (ofInt fl (int (length items)))),
                   Pulse := toInt fl (fdiv fl sumPul (ofInt fl (int (length items))))\<rparr>,
                None)))"

section \<open>The device protocol (\<^verbatim>\<open>getData\<close>, \<^verbatim>\<open>fetchData\<close>)\<close>

type_synonym byte = "8 word"

text \<open>
  How a call ends.  \<^verbatim>\<open>log.Fatal\<close> prints the error and ends the process
  (\<^verbatim>\<open>os.Exit(1)\<close>): \<open>Exits\<close>, with the error and the state of the world at
  that moment.  Otherwise the call returns a value: \<open>Returns\<close>.  A call that
  never ends has no outcome at all (\<open>None\<close> below).
\<close>

datatype ('a, 'w) run = Exits err 'w | Returns 'a 'w

text \<open>
  The serial port (\<^verbatim>\<open>serial.OpenPort\<close> and the \<^verbatim>\<open>io.ReadWriteCloser\<close> it
  returns) belongs to a library and to the operating system.  It is a
  parameter: four operations on a state \<open>'w\<close> of the outside world, each
  returning the new state.  An operation that fails returns the text of its
  error.  \<open>portRead cap\<close> is \<^verbatim>\<open>Read(p)\<close> with \<^verbatim>\<open>len(p) = cap\<close>; it
  returns the bytes delivered.  Of \<^verbatim>\<open>Write\<close> only the error is used by the
  program.  \<^verbatim>\<open>Close\<close> returns an error as well; the program calls it as a
  bare statement and so drops what it returns.
\<close>

record 'w port =
  openPort :: "string \<Rightarrow> 'w \<Rightarrow> string option \<times> 'w"
  portWrite :: "byte list \<Rightarrow> 'w \<Rightarrow> string option \<times> 'w"
  portRead :: "nat \<Rightarrow> 'w \<Rightarrow> (byte list \<times> string option) \<times> 'w"
  portClose :: "'w \<Rightarrow> string option \<times> 'w"

text \<open>\<^verbatim>\<open>Read(b[t:])\<close> stores the bytes it delivers at offset \<^verbatim>\<open>t\<close> of the buffer.\<close>

definition store :: "byte list \<Rightarrow> nat \<Rightarrow> byte list \<Rightarrow> byte list" where
  "store b t chunk = take t b @ chunk @ drop (t + length chunk) b"

text \<open>
  The loop of \<^verbatim>\<open>getData\<close>.  A \<^verbatim>\<open>Read\<close> delivers at most \<^verbatim>\<open>len(b[t:])\<close>
  bytes, hence the \<open>take\<close>.  On an error \<^verbatim>\<open>log.Fatal(err)\<close> ends the
  process, and the \<^verbatim>\<open>return t, err\<close> after it is never reached.  A port
  that keeps delivering nothing keeps the loop running for ever.
\<close>

partial_function (option) getDataLoop ::
  "'w port \<Rightarrow> nat \<Rightarrow> nat \<Rightarrow> byte list \<Rightarrow> 'w \<Rightarrow>
   ((nat \<times> err option) \<times> byte list, 'w) run option"
where
  "getDataLoop io sizeN t b w =
     (if t < sizeN then
        (case portRead io (length b - t) w of
           ((chunk, Some e), w') \<Rightarrow> Some (Exits (ChannelError e) w')
         | ((chunk, None), w') \<Rightarrow>
             getDataLoop io sizeN (t + length (take (length b - t) chunk))
               (store b t (take (length b - t) chunk)) w')
      else Some (Returns ((t, None), b) w))"

text \<open>
  \<^verbatim>\<open>getData(s, buf, size)\<close> returns \<^verbatim>\<open>(t, nil)\<close>; the buffer it has filled is
  returned with it.
\<close>

definition getData ::
  "'w port \<Rightarrow> byte list \<Rightarrow> nat \<Rightarrow> 'w \<Rightarrow> ((nat \<times> err option) \<times> byte list, 'w) run option" where
  "getData io buf sizeN w = getDataLoop io sizeN 0 buf w"

text \<open>The nine assignments that decode a record from the buffer.\<close>

definition decodeRecord :: "byte list \<Rightarrow> measurement" where
  "decodeRecord buf =
     \<lparr>Header = uint (buf ! 0),
      Systolic = uint (buf ! 1) + 25,
      Diastolic = uint (buf ! 2) + 25,
      Pulse = uint (buf ! 3),
      Month = uint (buf ! 4),
      Day = uint (buf ! 5),
      Hour = uint (buf ! 6),
      Minute = uint (buf ! 7),
      Year = uint (buf ! 8) + 2000\<rparr>"

text \<open>The query \<^verbatim>\<open>[]byte{'\xa3', uint8(i + 1)}\<close>.\<close>

definition recordRequest :: "nat \<Rightarrow> byte list" where
  "recordRequest i = [0xa3, of_nat (i + 1)]"

text \<open>
  The loop \<^verbatim>\<open>for i := 0; i < nRecords; i++\<close> of \<^verbatim>\<open>fetchData\<close>, on the list
  of the values \<^verbatim>\<open>i\<close> still to come.  A failed write returns from
  \<^verbatim>\<open>fetchData\<close> with the items gathered so far and the error.  The error of
  \<^verbatim>\<open>getData\<close> is assigned and never looked at.
\<close>

fun fetchRecords ::
  "'w port \<Rightarrow> nat list \<Rightarrow> measurement list \<Rightarrow> byte list \<Rightarrow> 'w \<Rightarrow>
   (measurement list \<times> err option, 'w) run option" where
  "fetchRecords io [] items buf w = Some (Returns (items, None) w)"
| "fetchRecords io (i # rest) items buf w =
     (case portWrite io (recordRequest i) w of
        (Some e, w1) \<Rightarrow> Some (Returns (items, Some (ChannelError e)) w1)
      | (None, w1) \<Rightarrow>
          (case getData io buf 9 w1 of
             None \<Rightarrow> None
           | Some (Exits e w2) \<Rightarrow> Some (Exits e w2)
           | Some (Returns ((n, err), buf') w2) \<Rightarrow>
               fetchRecords io rest (items @ [decodeRecord buf']) buf' w2))"

text \<open>
  \<^verbatim>\<open>fetchData\<close>, phase by phase as in the source: open the port, handshake,
  description, count, records, close and merge.  \<^verbatim>\<open>items\<close> is the nil slice
  until the records phase.  The buffer is \<^verbatim>\<open>make([]byte, 128)\<close>.
\<close>

definition fetchData ::
  "((measurement \<Rightarrow> measurement \<Rightarrow> bool) \<Rightarrow> measurement list \<Rightarrow> measurement list) \<Rightarrow>
   'w port \<Rightarrow> string \<Rightarrow> 'w \<Rightarrow> (measurement list \<times> err option, 'w) run option" where
  "fetchData sortSlice io dev w0 =
     (case openPort io dev w0 of
        (Some e, w) \<Rightarrow> Some (Returns ([], Some (ChannelError e)) w)
      | (None, w) \<Rightarrow>
     (case portWrite io [0xaa] w of
        (Some e, w) \<Rightarrow> Some (Returns ([], Some (ChannelError e)) w)
      | (None, w) \<Rightarrow>
     (case getData io (replicate 128 0) 1 w of
        None \<Rightarrow> None
      | Some (Exits e w) \<Rightarrow> Some (Exits e w)
      | Some (Returns ((n, Some e), buf) w) \<Rightarrow> Some (Returns ([], Some e) w)
      | Some (Returns ((n, None), buf) w) \<Rightarrow>
     if \<not> (n = 1 \<and> buf ! 0 = 0x55)
     then Some (Returns ([], Some (Errorf ''handshake failed'')) (snd (portClose io w)))
     else
     (case portWrite io [0xa4] w of
        (Some e, w) \<Rightarrow> Some (Returns ([], Some (ChannelError e)) w)
      | (None, w) \<Rightarrow>
     (case getData io buf 32 w of
        None \<Rightarrow> None
      | Some (Exits e w) \<Rightarrow> Some (Exits e w)
      | Some (Returns ((n, err), buf) w) \<Rightarrow>
     (case portWrite io [0xa2] w of
        (Some e, w) \<Rightarrow> Some (Returns ([], Some (ChannelError e)) w)
      | (None, w) \<Rightarrow>
     (case getData io buf 1 w of
        None \<Rightarrow> None
      | Some (Exits e w) \<Rightarrow> Some (Exits e w)
      | Some (Returns ((n, Some e), buf) w) \<Rightarrow> Some (Returns ([], Some e) w)
      | Some (Returns ((n, None), buf) w) \<Rightarrow>
     if n \<noteq> 1 then Some (Returns ([], Some (Errorf ''no measurement found'')) w)
     else
     (case fetchRecords io [0..<unat (buf ! 0)] [] buf w of
        None \<Rightarrow> None
      | Some (Exits e w) \<Rightarrow> Some (Exits e w)
      | Some (Returns (items, Some e) w) \<Rightarrow> Some (Returns (items, Some e) w)
      | Some (Returns (items, None) w) \<Rightarrow>
          Some (Returns (mergeItems sortSlice items [], None) (snd (portClose io w)))))))))))"

subsection \<open>Observing a port\<close>

text \<open>
  To say what the program does on a port, the port is wrapped so that it
  keeps the list of the operations performed on it, in order, each with the
  error it returned.
\<close>

datatype event =
    Opened string "string option"
  | Wrote "byte list" "string option"
  | Read "byte list" "string option"
  | Closed "string option"

definition recording :: "'w port \<Rightarrow> ('w \<times> event list) port" where
  "recording io =
     \<lparr>openPort = (\<lambda>dev (w, tr). case openPort io dev w of
                    (e, w') \<Rightarrow> (e, (w', tr @ [Opened dev e]))),
      portWrite = (\<lambda>q (w, tr). case portWrite io q w of
                    (e, w') \<Rightarrow> (e, (w', tr @ [Wrote q e]))),
      portRead = (\<lambda>cap (w, tr). case portRead io cap w of
                    ((chunk, e), w') \<Rightarrow>
                      ((take cap chunk, e), (w', tr @ [Read (take cap chunk) e]))),
      portClose = (\<lambda>(w, tr). case portClose io w of
                    (e, w') \<Rightarrow> (e, (w', tr @ [Closed e])))\<rparr>"

text \<open>Successful reads delivering the given chunks.\<close>

definition reads :: "byte list list \<Rightarrow> event list" where
  "reads chunks = map (\<lambda>c. Read c None) chunks"

text \<open>The error of an operation, and the errors of a whole trace.\<close>

fun failure :: "event \<Rightarrow> string option" where
  "failure (Opened dev e) = e"
| "failure (Wrote q e) = e"
| "failure (Read c e) = e"
| "failure (Closed e) = e"

fun failures :: "event list \<Rightarrow> string list" where
  "failures [] = []"
| "failures (ev # tr) = (case failure ev of None \<Rightarrow> failures tr | Some s \<Rightarrow> s # failures tr)"

text \<open>
  The exchanges of a trace: each query written, paired with all the bytes read
  between it and the next write.
\<close>

fun addEvent ::
  "(byte list \<times> byte list) list \<Rightarrow> event \<Rightarrow> (byte list \<times> byte list) list" where
  "addEvent acc (Wrote q e) = acc @ [(q, [])]"
| "addEvent acc (Read c e) =
     (if acc = [] then [] else butlast acc @ [(fst (last acc), snd (last acc) @ c)])"
| "addEvent acc (Opened dev e) = acc"
| "addEvent acc (Closed e) = acc"

definition exchanges :: "event list \<Rightarrow> (byte list \<times> byte list) list" where
  "exchanges tr = foldl addEvent [] tr"

text \<open>The trace and the result of an outcome on a recording port.\<close>

fun traceOf :: "('a, 'w \<times> event list) run \<Rightarrow> event list" where
  "traceOf (Exits e wt) = snd wt"
| "traceOf (Returns a wt) = snd wt"

fun resultOf :: "('a, 'w) run \<Rightarrow> err + 'a" where
  "resultOf (Exits e w) = Inl e"
| "resultOf (Returns a w) = Inr a"

text \<open>
  What one run of the read loop adds to the trace, and what it returns: the
  chunks \<open>cs\<close> read one after the other, the last one possibly followed by a
  failed read.
\<close>

definition readsOutcome ::
  "nat \<Rightarrow> nat \<Rightarrow> byte list \<Rightarrow> event list \<Rightarrow> byte list list \<Rightarrow>
   ((nat \<times> err option) \<times> byte list, 'w \<times> event list) run \<Rightarrow> bool" where
  "readsOutcome sizeN t b tr cs r =
     (case r of
        Returns ((n, e), b') (w', tr') \<Rightarrow>
          tr' = tr @ reads cs \<and> n = t + length (concat cs) \<and> e = None \<and>
          length b' = length b \<and> n \<le> length b \<and> take n b' = take t b @ concat cs \<and>
          sizeN \<le> n \<and> (cs \<noteq> [] \<longrightarrow> t + length (concat (butlast cs)) < sizeN)
      | Exits e (w', tr') \<Rightarrow>
          (\<exists>c s. tr' = tr @ reads cs @ [Read c (Some s)] \<and> e = ChannelError s))"

text \<open>
  The runs of the records loop as a relation between the indices still to
  fetch, the items gathered so far, the events the loop adds to the trace and
  its result (\<open>Inl\<close>: the process has ended in \<^verbatim>\<open>getData\<close>).
\<close>

inductive recordsRun ::
  "nat list \<Rightarrow> measurement list \<Rightarrow> event list \<Rightarrow> err + (measurement list \<times> err option) \<Rightarrow> bool"
where
  finished: "recordsRun [] items [] (Inr (items, None))"
| write_failed:
    "recordsRun (i # rest) items [Wrote (recordRequest i) (Some s)]
       (Inr (items, Some (ChannelError s)))"
| read_failed:
    "recordsRun (i # rest) items
       (Wrote (recordRequest i) None # reads cs @ [Read c (Some s)])
       (Inl (ChannelError s))"
| fetched:
    "9 \<le> length (concat cs) \<Longrightarrow>
     recordsRun rest (items @ [decodeRecord (concat cs)]) evs out \<Longrightarrow>
     recordsRun (i # rest) items (Wrote (recordRequest i) None # reads cs @ evs) out"

text \<open>
  The traces of the first three phases when they go through, \<open>hs\<close>, \<open>ds\<close> and
  \<open>cs\<close> being the chunks read in each, and the runs of \<^verbatim>\<open>fetchData\<close> as a
  relation between the trace and the result: one rule for each way the
  function ends.
\<close>

definition hsTrace :: "string \<Rightarrow> byte list list \<Rightarrow> event list" where
  "hsTrace dev hs = Opened dev None # Wrote [0xaa] None # reads hs"

definition descTrace :: "string \<Rightarrow> byte list list \<Rightarrow> byte list list \<Rightarrow> event list" where
  "descTrace dev hs ds = hsTrace dev hs @ Wrote [0xa4] None # reads ds"

definition countTrace ::
  "string \<Rightarrow> byte list list \<Rightarrow> byte list list \<Rightarrow> byte list list \<Rightarrow> event list" where
  "countTrace dev hs ds cs = descTrace dev hs ds @ Wrote [0xa2] None # reads cs"

inductive fetchRun ::
  "((measurement \<Rightarrow> measurement \<Rightarrow> bool) \<Rightarrow> measurement list \<Rightarrow> measurement list) \<Rightarrow>
   string \<Rightarrow> event list \<Rightarrow> err + (measurement list \<times> err option) \<Rightarrow> bool"
  for srt dev
where
  open_failed:
    "fetchRun srt dev [Opened dev (Some s)] (Inr ([], Some (ChannelError s)))"
| hs_write_failed:
    "fetchRun srt dev [Opened dev None, Wrote [0xaa] (Some s)] (Inr ([], Some (ChannelError s)))"
| hs_read_failed:
    "fetchRun srt dev (hsTrace dev hs @ [Read c (Some s)]) (Inl (ChannelError s))"
| hs_mismatch:
    "concat hs \<noteq> [0x55] \<Longrightarrow>
     fetchRun srt dev (hsTrace dev hs @ [Closed c]) (Inr ([], Some (Errorf ''handshake failed'')))"
| desc_write_failed:
    "concat hs = [0x55] \<Longrightarrow>
     fetchRun srt dev (hsTrace dev hs @ [Wrote [0xa4] (Some s)]) (Inr ([], Some (ChannelError s)))"
| desc_read_failed:
    "concat hs = [0x55] \<Longrightarrow>
     fetchRun srt dev (descTrace dev hs ds @ [Read c (Some s)]) (Inl (ChannelError s))"
| count_write_failed:
    "concat hs = [0x55] \<Longrightarrow> 32 \<le> length (concat ds) \<Longrightarrow>
     fetchRun srt dev (descTrace dev hs ds @ [Wrote [0xa2] (Some s)])
       (Inr ([], Some (ChannelError s)))"
| count_read_failed:
    "concat hs = [0x55] \<Longrightarrow> 32 \<le> length (concat ds) \<Longrightarrow>
     fetchRun srt dev (countTrace dev hs ds cs @ [Read c (Some s)]) (Inl (ChannelError s))"
| no_measurement:
    "concat hs = [0x55] \<Longrightarrow> 32 \<le> length (concat ds) \<Longrightarrow>
     cs \<noteq> [] \<Longrightarrow> concat (butlast cs) = [] \<Longrightarrow> 2 \<le> length (last cs) \<Longrightarrow>
     fetchRun srt dev (countTrace dev hs ds cs)
       (Inr ([], Some (Errorf ''no measurement found'')))"
| records_stopped:
    "concat hs = [0x55] \<Longrightarrow> 32 \<le> length (concat ds) \<Longrightarrow> concat cs = [cnt] \<Longrightarrow>
     recordsRun [0..<unat cnt] [] evs (Inr (items, Some e)) \<Longrightarrow>
     fetchRun srt dev (countTrace dev hs ds cs @ evs) (Inr (items, Some e))"
| records_exit:
    "concat hs = [0x55] \<Longrightarrow> 32 \<le> length (concat ds) \<Longrightarrow> concat cs = [cnt] \<Longrightarrow>
     recordsRun [0..<unat cnt] [] evs (Inl e) \<Longrightarrow>
     fetchRun srt dev (countTrace dev hs ds cs @ evs) (Inl e)"
| success:
    "concat hs = [0x55] \<Longrightarrow> 32 \<le> length (concat ds) \<Longrightarrow> concat cs = [cnt] \<Longrightarrow>
     recordsRun [0..<unat cnt] [] evs (Inr (items, None)) \<Longrightarrow>
     fetchRun srt dev (countTrace dev hs ds cs @ evs @ [Closed c])
       (Inr (mergeItems srt items [], None))"

text \<open>
  A port on which no read comes back empty-handed: every read into a buffer
  with room delivers at least one byte or fails.
\<close>

definition responsive :: "'w port \<Rightarrow> bool" where
  "responsive io \<longleftrightarrow>
     (\<forall>cap w. 0 < cap \<longrightarrow>
        snd (fst (portRead io cap w)) \<noteq> None \<or> fst (fst (portRead io cap w)) \<noteq> [])"

subsection \<open>Ports for concrete runs\<close>

text \<open>
  A scripted device: each read delivers the next entry of \<open>pending\<close> (end of
  file when the script is over), each write returns the next entry of
  \<open>writeErrors\<close> (success when that list is over).
\<close>

record mock =
  pending :: "(byte list \<times> string option) list"
  writeErrors :: "string option list"

definition mockPort :: "mock port" where
  "mockPort =
     \<lparr>openPort = (\<lambda>dev m. (None, m)),
      portWrite = (\<lambda>q m. case writeErrors m of
                     [] \<Rightarrow> (None, m)
                   | e # es \<Rightarrow> (e, m\<lparr>writeErrors := es\<rparr>)),
      portRead = (\<lambda>cap m. case pending m of
                     [] \<Rightarrow> (([], Some ''EOF''), m)
                   | r # rs \<Rightarrow> (r, m\<lparr>pending := rs\<rparr>)),
      portClose = (\<lambda>m. (None, m))\<rparr>"

text \<open>
  The script of reads that all succeed and deliver the chunks \<open>cs\<close> one
  after the other.  \<open>delivery k cs\<close>: these chunks answer one call
  \<^verbatim>\<open>getData(s, buf, k)\<close>; the last of them is the first to bring the total to
  \<open>k\<close> bytes, so that the loop stops with it, and the buffer of 128 bytes
  holds them all.
\<close>

definition answered :: "byte list list \<Rightarrow> (byte list \<times> string option) list" where
  "answered cs = map (\<lambda>c. (c, None)) cs"

definition delivery :: "nat \<Rightarrow> byte list list \<Rightarrow> bool" where
  "delivery k cs \<longleftrightarrow>
     cs \<noteq> [] \<and> length (concat (butlast cs)) < k \<and> k \<le> length (concat cs) \<and>
     length (concat cs) \<le> 128"

text \<open>
  The scripted device behind a port that cannot be opened, and behind a port
  whose \<^verbatim>\<open>Close\<close> fails.
\<close>

definition deadPort :: "mock port" where
  "deadPort = mockPort\<lparr>openPort := (\<lambda>dev m. (Some ''no such file or directory'', m))\<rparr>"

definition badClose :: "mock port" where
  "badClose = mockPort\<lparr>portClose := (\<lambda>m. (Some ''input/output error'', m))\<rparr>"

text \<open>A device that answers every read with the single byte 0x55.\<close>

definition steadyPort :: "unit port" where
  "steadyPort =
     \<lparr>openPort = (\<lambda>dev u. (None, u)),
      portWrite = (\<lambda>q u. (None, u)),
      portRead = (\<lambda>cap u. ((replicate (min cap 1) 0x55, None), u)),
      portClose = (\<lambda>u. (None, u))\<rparr>"

text \<open>
  A device holding two records, \<open>sampleA\<close> then \<open>sampleC\<close>: an empty read,
  the handshake byte, 32 bytes of description, the count, the first record in
  two pieces and the second in one; and the traces of runs on it.
\<close>

definition goodScript :: "(byte list \<times> string option) list" where
  "goodScript =
     [([], None), ([0x55], None), (replicate 32 0x42, None), ([2], None),
      ([0, 103, 57, 64], None), ([6, 1, 8, 30, 16], None),
      ([0, 92, 51, 58, 6, 2, 21, 5, 16], None)]"

definition goodTrace :: "event list" where
  "goodTrace =
     [Opened ''/dev/ttyUSB0'' None,
      Wrote [0xaa] None, Read [] None, Read [0x55] None,
      Wrote [0xa4] None, Read (replicate 32 0x42) None,
      Wrote [0xa2] None, Read [2] None,
      Wrote [0xa3, 1] None, Read [0, 103, 57, 64] None, Read [6, 1, 8, 30, 16] None,
      Wrote [0xa3, 2] None, Read [0, 92, 51, 58, 6, 2, 21, 5, 16] None,
      Closed None]"

definition failTrace :: "event list" where
  "failTrace =
     [Opened ''/dev/ttyUSB0'' None,
      Wrote [0xaa] None, Read [] None, Read [0x55] None,
      Wrote [0xa4] None, Read (replicate 32 0x42) None,
      Wrote [0xa2] None, Read [2] None,
      Wrote [0xa3, 1] None, Read [0, 103, 57, 64] None, Read [6, 1, 8, 30, 16] None,
      Wrote [0xa3, 2] (Some ''input/output error'')]"

definition shortTrace :: "event list" where
  "shortTrace =
     [Opened ''/dev/ttyUSB0'' None,
      Wrote [0xaa] None, Read [0x55] None,
      Wrote [0xa4] None, Read (replicate 32 0x42) None,
      Wrote [0xa2] None, Read [] None, Read [2, 0] None]"

text \<open>The trace of a run in which the write of the first record query fails.\<close>

definition stoppedTrace :: "event list" where
  "stoppedTrace =
     [Opened ''/dev/ttyUSB0'' None,
      Wrote [0xaa] None, Read [] None, Read [0x55] None,
      Wrote [0xa4] None, Read (replicate 32 0x42) None,
      Wrote [0xa2] None, Read [2] None,
      Wrote [0xa3, 1] (Some ''input/output error'')]"


section \<open>Properties of the merge\<close>

subsection \<open>The ordering relation\<close>

lemma isLater_refl: "isLater m m"
  by (simp add: isLater_def)

lemma isLater_total: "\<not> isLater a b \<Longrightarrow> isLater b a"
  by (simp add: isLater_def split: if_splits)

lemma isLater_trans: "isLater a b \<Longrightarrow> isLater b c \<Longrightarrow> isLater a c"
  unfolding isLater_def by (simp split: if_splits)

subsection \<open>One insertion\<close>

lemma scanInsert_None: "scanInsert l m = None \<Longrightarrow> m \<in> set l"
  by (induction l) (auto split: if_splits)

text \<open>In a sorted slice the scan cannot miss a duplicate: it is met before the break.\<close>

lemma scanInsert_finds:
  "sorted_wrt isLater l \<Longrightarrow> m \<in> set l \<Longrightarrow> scanInsert l m = None"
proof (induction l)
  case Nil
  then show ?case by simp
next
  case (Cons x xs)
  show ?case
  proof (cases "x = m")
    case True
    then show ?thesis by (simp add: isLater_refl)
  next
    case False
    with Cons.prems have mem: "m \<in> set xs" by simp
    with Cons.prems have "isLater x m" by simp
    moreover from Cons mem have "scanInsert xs m = None" by simp
    ultimately show ?thesis using False by simp
  qed
qed

lemma scanInsert_Some_mset:
  "scanInsert l m = Some r \<Longrightarrow> mset r = add_mset m (mset l)"
  by (induction l arbitrary: r) (auto split: if_splits)

lemma scanInsert_Some_sorted:
  "scanInsert l m = Some r \<Longrightarrow> sorted_wrt isLater l \<Longrightarrow> sorted_wrt isLater r"
proof (induction l arbitrary: r)
  case Nil
  then show ?case by auto
next
  case (Cons x xs)
  show ?case
  proof (cases "isLater x m")
    case False
    then have r: "r = m # x # xs" using Cons.prems(1) by simp
    have mx: "isLater m x" using False by (rule isLater_total)
    have "\<forall>z\<in>set xs. isLater m z"
      using Cons.prems(2) mx by (auto intro: isLater_trans)
    then show ?thesis using r mx Cons.prems(2) by simp
  next
    case True
    with Cons.prems(1) obtain r' where r': "scanInsert xs m = Some r'" and r: "r = x # r'"
      by (auto split: if_splits)
    have "sorted_wrt isLater r'" using Cons.IH[OF r'] Cons.prems(2) by simp
    moreover have "set r' = insert m (set xs)"
      using scanInsert_Some_mset[OF r'] by (metis set_mset_add_mset_insert set_mset_mset)
    ultimately show ?thesis using r True Cons.prems(2) by simp
  qed
qed

lemma insertIfMissing_set: "set (insertIfMissing l m) = insert m (set l)"
proof (cases "scanInsert l m")
  case None
  then show ?thesis using scanInsert_None[OF None] by (auto simp: insertIfMissing_def)
next
  case (Some r)
  then show ?thesis using scanInsert_Some_mset[OF Some]
    by (simp add: insertIfMissing_def) (metis set_mset_add_mset_insert set_mset_mset)
qed

lemma insertIfMissing_sorted:
  "sorted_wrt isLater l \<Longrightarrow> sorted_wrt isLater (insertIfMissing l m)"
  by (cases "scanInsert l m") (auto simp: insertIfMissing_def dest: scanInsert_Some_sorted)

lemma insertIfMissing_distinct:
  assumes "sorted_wrt isLater l" "distinct l"
  shows "distinct (insertIfMissing l m)"
proof (cases "scanInsert l m")
  case None
  then show ?thesis using assms by (simp add: insertIfMissing_def)
next
  case (Some r)
  have "m \<notin> set l" using scanInsert_finds[OF assms(1)] Some by auto
  then have "distinct r"
    using scanInsert_Some_mset[OF Some] assms(2)
    by (metis distinct.simps(2) mset.simps(2) mset_eq_imp_distinct_iff)
  then show ?thesis using Some by (simp add: insertIfMissing_def)
qed

subsection \<open>The two insertion loops\<close>

lemma foldl_insert_set:
  "set (foldl insertIfMissing acc xs) = set acc \<union> set xs"
  by (induction xs arbitrary: acc) (auto simp: insertIfMissing_set)

lemma foldl_insert_sorted:
  "sorted_wrt isLater acc \<Longrightarrow> sorted_wrt isLater (foldl insertIfMissing acc xs)"
  by (induction xs arbitrary: acc) (auto simp: insertIfMissing_sorted)

lemma foldl_insert_distinct:
  "sorted_wrt isLater acc \<Longrightarrow> distinct acc \<Longrightarrow> distinct (foldl insertIfMissing acc xs)"
  by (induction xs arbitrary: acc) (auto simp: insertIfMissing_sorted insertIfMissing_distinct)

lemma mergeItems_sorted: "sorted_wrt isLater (mergeItems srt a b)"
  by (simp add: mergeItems_def Let_def foldl_insert_sorted)

lemma mergeItems_distinct: "distinct (mergeItems srt a b)"
  by (simp add: mergeItems_def Let_def foldl_insert_sorted foldl_insert_distinct)

lemma mergeItems_set: "set (mergeItems srt a b) = set (srt isLater a) \<union> set (srt isLater b)"
  by (auto simp add: mergeItems_def Let_def foldl_insert_set)

lemma sorted_wrt_adjacent:
  "sorted_wrt P xs \<Longrightarrow> Suc i < length xs \<Longrightarrow> P (xs ! i) (xs ! Suc i)"
  by (simp add: sorted_wrt_iff_nth_less)

subsection \<open>The insertion sort of the library only swaps\<close>

lemma insertRev_mset: "mset (insertRev lessFn ys x) = add_mset x (mset ys)"
  by (induction ys) auto

lemma foldl_insertRev_mset: "mset (foldl (insertRev lessFn) acc xs) = mset acc + mset xs"
  by (induction xs arbitrary: acc) (auto simp: insertRev_mset)

lemma insertionSort_mset: "mset (insertionSort lessFn xs) = mset xs"
  by (simp add: insertionSort_def foldl_insertRev_mset)

lemma perm_set: "\<forall>xs. mset (srt isLater xs) = mset xs \<Longrightarrow> set (srt isLater xs) = set xs"
  by (metis set_mset_mset)

lemma perm_Nil: "\<forall>xs. mset (srt isLater xs) = mset xs \<Longrightarrow> srt isLater [] = []"
  by (metis mset_zero_iff)

lemma mergeItems_empty_set:
  assumes "\<forall>xs. mset (srt isLater xs) = mset xs"
  shows "set (mergeItems srt a []) = set a"
  using perm_set[of srt, OF assms] perm_Nil[of srt, OF assms] by (simp add: mergeItems_set)

text \<open>
  Two sorted duplicate-free slices with the same records are the same slice,
  provided no two different records compare as tied.
\<close>

lemma sorted_distinct_unique:
  "sorted_wrt isLater xs \<Longrightarrow> distinct xs \<Longrightarrow> sorted_wrt isLater ys \<Longrightarrow> distinct ys \<Longrightarrow>
   set xs = set ys \<Longrightarrow>
   (\<forall>x\<in>set xs. \<forall>y\<in>set xs. isLater x y \<and> isLater y x \<longrightarrow> x = y) \<Longrightarrow> xs = ys"
proof (induction xs arbitrary: ys)
  case Nil
  then show ?case by simp
next
  case (Cons x xs)
  then obtain y ys' where ys: "ys = y # ys'" by (cases ys) auto
  have "isLater y x" using Cons.prems(3,5) ys by (cases "x = y") (auto simp: isLater_refl)
  moreover have "isLater x y" using Cons.prems(1,5) ys
    by (cases "x = y") (auto simp: isLater_refl)
  moreover have "y \<in> set (x # xs)" using Cons.prems(5) ys by simp
  ultimately have xy: "x = y" using Cons.prems(6) by auto
  have "set xs = set ys'" using Cons.prems(2,4,5) ys xy by auto
  then have "xs = ys'" using Cons.IH[of ys'] Cons.prems ys by simp
  then show ?case using xy ys by simp
qed

subsection \<open>Claim C1\<close>

text \<open>
  C1.  For every pair of collections and whatever order the library sort
  leaves them in, the slice returned by \<^verbatim>\<open>mergeItems\<close> has no two equal
  elements (equality of records is equality of all nine fields) and is sorted
  latest first: every two elements in slice order, and so every adjacent pair,
  satisfy \<^verbatim>\<open>isLater\<close>; \<^verbatim>\<open>isLater a b\<close> is the lexicographic later-or-equal
  comparison of (year, month, day, hour, minute).
\<close>

theorem mergeItems_duplicate_free_sorted:
  "distinct (mergeItems sortSlice newItems oldItems) \<and>
   sorted_wrt isLater (mergeItems sortSlice newItems oldItems) \<and>
   (\<forall>i. Suc i < length (mergeItems sortSlice newItems oldItems) \<longrightarrow>
      isLater (mergeItems sortSlice newItems oldItems ! i)
              (mergeItems sortSlice newItems oldItems ! Suc i)) \<and>
   (\<forall>a b. isLater a b \<longleftrightarrow>
      Year a > Year b \<or> Year a = Year b \<and>
       (Month a > Month b \<or> Month a = Month b \<and>
         (Day a > Day b \<or> Day a = Day b \<and>
           (Hour a > Hour b \<or> Hour a = Hour b \<and> Minute a \<ge> Minute b))))"
proof -
  have "\<forall>a b. isLater a b \<longleftrightarrow>
      Year a > Year b \<or> Year a = Year b \<and>
       (Month a > Month b \<or> Month a = Month b \<and>
         (Day a > Day b \<or> Day a = Day b \<and>
           (Hour a > Hour b \<or> Hour a = Hour b \<and> Minute a \<ge> Minute b)))"
    by (auto simp: isLater_def)
  then show ?thesis
    using mergeItems_distinct mergeItems_sorted sorted_wrt_adjacent[OF mergeItems_sorted]
    by blast
qed

theorem mergeItems_duplicate_free_sorted_witness:
  "mergeItems insertionSort [sampleA, sampleC, sampleA] [sampleB, sampleC]
     = [sampleC, sampleA, sampleB] \<and>
   distinct [sampleC, sampleA, sampleB] \<and>
   isLater sampleC sampleA \<and> isLater sampleA sampleB"
proof -
  have e: "mergeItems insertionSort [sampleA, sampleC, sampleA] [sampleB, sampleC]
             = [sampleC, sampleA, sampleB]"
    by (simp add: mergeItems_def insertionSort_def insertIfMissing_def isLater_def
          sampleA_def sampleB_def sampleC_def)
  have "distinct (mergeItems insertionSort [sampleA, sampleC, sampleA] [sampleB, sampleC]) \<and>
        sorted_wrt isLater (mergeItems insertionSort [sampleA, sampleC, sampleA] [sampleB, sampleC])"
    using mergeItems_duplicate_free_sorted
            [of insertionSort "[sampleA, sampleC, sampleA]" "[sampleB, sampleC]"]
    by blast
  then show ?thesis by (simp add: e)
qed

subsection \<open>Claim C6\<close>

text \<open>
  C6.  The library sort only swaps elements, so its output is a permutation
  of its input; under that one property of \<^verbatim>\<open>sort.Slice\<close>, merging \<open>A\<close> with
  the empty collection returns exactly the distinct records of \<open>A\<close>: the
  same set of records, none twice, and as many as \<open>A\<close> has distinct records.
\<close>

theorem mergeItems_empty_dedup:
  assumes "\<forall>xs. mset (sortSlice isLater xs) = mset xs"
  shows "set (mergeItems sortSlice A []) = set A \<and>
         distinct (mergeItems sortSlice A []) \<and>
         length (mergeItems sortSlice A []) = length (remdups A) \<and>
         length (mergeItems sortSlice A []) = card (set A)"
proof -
  have s: "set (mergeItems sortSlice A []) = set A"
    by (rule mergeItems_empty_set[of sortSlice, OF assms])
  have d: "distinct (mergeItems sortSlice A [])" by (rule mergeItems_distinct)
  have "length (mergeItems sortSlice A []) = card (set A)"
    using distinct_card[OF d] s by simp
  then show ?thesis using s d by (simp add: length_remdups_card_conv)
qed

theorem mergeItems_empty_dedup_witness:
  "(\<forall>xs. mset (insertionSort isLater xs) = mset xs) \<and>
   mergeItems insertionSort [sampleA, sampleC, sampleA, sampleB] []
     = [sampleC, sampleB, sampleA] \<and>
   length [sampleC, sampleB, sampleA] = length (remdups [sampleA, sampleC, sampleA, sampleB])"
proof -
  have p: "\<forall>xs. mset (insertionSort isLater xs) = mset xs" by (simp add: insertionSort_mset)
  have e: "mergeItems insertionSort [sampleA, sampleC, sampleA, sampleB] []
             = [sampleC, sampleB, sampleA]"
    by (simp add: mergeItems_def insertionSort_def insertIfMissing_def isLater_def
          sampleA_def sampleB_def sampleC_def)
  show ?thesis
    using p e mergeItems_empty_dedup
                [of insertionSort "[sampleA, sampleC, sampleA, sampleB]", OF p]
    by simp
qed

subsection \<open>Claim C9\<close>

text \<open>
  C9, as stated, fails.  Two different records with the same timestamp are
  swapped by the library's insertion sort, because \<^verbatim>\<open>isLater\<close> holds between
  tied records in both directions; merging \<open>[sampleA, sampleB]\<close> gives
  \<open>[sampleB, sampleA]\<close>, and merging that again gives \<open>[sampleA, sampleB]\<close>.
\<close>

theorem mergeItems_not_idempotent_on_ties:
  "mergeItems insertionSort (mergeItems insertionSort [sampleA, sampleB] []) []
     \<noteq> mergeItems insertionSort [sampleA, sampleB] []"
  by (simp add: mergeItems_def insertionSort_def insertIfMissing_def isLater_def
        sampleA_def sampleB_def)

lemma merge_of_tied_samples:
  "mergeItems insertionSort [sampleA, sampleB] [] = [sampleB, sampleA] \<and>
   mergeItems insertionSort [sampleB, sampleA] [] = [sampleA, sampleB]"
  by (simp add: mergeItems_def insertionSort_def insertIfMissing_def isLater_def
        sampleA_def sampleB_def)

text \<open>
  C9, amended.  When the library sort returns a permutation of its input,
  merging the output of a merge with the empty collection returns the same
  records, each once, again sorted latest first; and it returns the very same
  slice, element for element, whenever no two different records of it have the
  same (year, month, day, hour, minute).  Nothing is said about the order of
  tied records.
\<close>

theorem mergeItems_idempotent_up_to_ties:
  assumes "\<forall>xs. mset (sortSlice isLater xs) = mset xs"
  shows "mset (mergeItems sortSlice (mergeItems sortSlice A B) [])
           = mset (mergeItems sortSlice A B) \<and>
         sorted_wrt isLater (mergeItems sortSlice (mergeItems sortSlice A B) []) \<and>
         ((\<forall>x\<in>set (mergeItems sortSlice A B). \<forall>y\<in>set (mergeItems sortSlice A B).
              isLater x y \<and> isLater y x \<longrightarrow> x = y) \<longrightarrow>
          mergeItems sortSlice (mergeItems sortSlice A B) [] = mergeItems sortSlice A B)"
proof -
  let ?R = "mergeItems sortSlice A B"
  let ?R2 = "mergeItems sortSlice ?R []"
  have s: "set ?R2 = set ?R" by (rule mergeItems_empty_set[of sortSlice, OF assms])
  have d2: "distinct ?R2" and d: "distinct ?R" by (rule mergeItems_distinct)+
  have o2: "sorted_wrt isLater ?R2" and o: "sorted_wrt isLater ?R" by (rule mergeItems_sorted)+
  have m: "mset ?R2 = mset ?R" using s d d2 by (simp add: set_eq_iff_mset_eq_distinct)
  have "?R2 = ?R"
    if "\<forall>x\<in>set ?R. \<forall>y\<in>set ?R. isLater x y \<and> isLater y x \<longrightarrow> x = y"
    using sorted_distinct_unique[OF o2 d2 o d s] that s by simp
  then show ?thesis using m o2 by blast
qed

theorem mergeItems_idempotent_up_to_ties_witness:
  "(\<forall>xs. mset (insertionSort isLater xs) = mset xs) \<and>
   mergeItems insertionSort [sampleA] [sampleC] = [sampleC, sampleA] \<and>
   \<not> isLater sampleA sampleC \<and>
   mergeItems insertionSort (mergeItems insertionSort [sampleA] [sampleC]) []
     = mergeItems insertionSort [sampleA] [sampleC]"
proof -
  have p: "\<forall>xs. mset (insertionSort isLater xs) = mset xs" by (simp add: insertionSort_mset)
  have e: "mergeItems insertionSort [sampleA] [sampleC] = [sampleC, sampleA]"
    by (simp add: mergeItems_def insertionSort_def insertIfMissing_def isLater_def
          sampleA_def sampleC_def)
  have n: "\<not> isLater sampleA sampleC"
    by (simp add: isLater_def sampleA_def sampleC_def)
  have u: "\<forall>x\<in>set (mergeItems insertionSort [sampleA] [sampleC]).
             \<forall>y\<in>set (mergeItems insertionSort [sampleA] [sampleC]).
               isLater x y \<and> isLater y x \<longrightarrow> x = y"
    unfolding e using n by simp
  show ?thesis
    using p e n u
      mergeItems_idempotent_up_to_ties[of insertionSort "[sampleA]" "[sampleC]", OF p]
    by blast
qed

section \<open>Properties of the classification\<close>

text \<open>
  C3.  For every record, \<^verbatim>\<open>WHOClass\<close> returns the category of the first
  matching row of the threshold table (Optimal below 120/80, Normal below
  130/85, High-Normal below 140/90, Mild Hypertension below 160/100, Moderate
  Hypertension below 180/110, otherwise Severe Hypertension) and, independently
  of the table, the Isolated Systolic Hypertension flag exactly when the
  systolic value is at least 140 and the diastolic value below 90.  A reading
  of 145/85 is Mild Hypertension with the flag.
\<close>

theorem WHOClass_first_match_and_flag:
  "WHOClass m =
     (firstMatchingRow whoThresholds (Systolic m) (Diastolic m),
      if Systolic m \<ge> 140 \<and> Diastolic m < 90 then IsolatedSystolicHypertension else 0) \<and>
   IsolatedSystolicHypertension \<noteq> 0 \<and>
   WHOClass (m\<lparr>Systolic := 145, Diastolic := 85\<rparr>)
     = (BPMildHypertension, IsolatedSystolicHypertension) \<and>
   WHOPressureClassification ! nat BPMildHypertension = ''Mild Hypertension'' \<and>
   WHOPressureFlag ! nat IsolatedSystolicHypertension = ''Isolated Systolic Hypertension'' \<and>
   WHOClassString (m\<lparr>Systolic := 145, Diastolic := 85\<rparr>)
     = ''Mild Hypertension (Isolated Systolic Hypertension)''"
proof -
  have general: "WHOClass m =
     (firstMatchingRow whoThresholds (Systolic m) (Diastolic m),
      if Systolic m \<ge> 140 \<and> Diastolic m < 90 then IsolatedSystolicHypertension else 0)"
    by (simp add: WHOClass_def whoThresholds_def Let_def)
  have example: "WHOClass (m\<lparr>Systolic := 145, Diastolic := 85\<rparr>)
     = (BPMildHypertension, IsolatedSystolicHypertension)"
    by (simp add: WHOClass_def Let_def)
  have labels: "WHOPressureClassification ! nat BPMildHypertension = ''Mild Hypertension''"
     "WHOPressureFlag ! nat IsolatedSystolicHypertension = ''Isolated Systolic Hypertension''"
    by (simp_all add: WHOPressureClassification_def WHOPressureFlag_def
          BPMildHypertension_def IsolatedSystolicHypertension_def numeral_3_eq_3)
  have str: "WHOClassString (m\<lparr>Systolic := 145, Diastolic := 85\<rparr>)
     = ''Mild Hypertension (Isolated Systolic Hypertension)''"
    unfolding WHOClassString_def example using labels by (simp add: Let_def)
  show ?thesis using general example labels str
    by (simp add: IsolatedSystolicHypertension_def)
qed

section \<open>Properties of the time-of-day filter\<close>

lemma foldl_step_filter:
  "foldl (timeFilterStep f t s e inverted) acc items =
     acc @ filter (\<lambda>d. timeFilterStep f t s e inverted [] d \<noteq> []) items"
proof (induction items arbitrary: acc)
  case Nil
  then show ?case by simp
next
  case (Cons d ds)
  have "timeFilterStep f t s e inverted acc d =
          acc @ (if timeFilterStep f t s e inverted [] d \<noteq> [] then [d] else [])"
    by (simp add: timeFilterStep_def)
  then show ?case using Cons.IH by simp
qed

lemma compare_minus: "compare m t = - 1 \<longleftrightarrow> mins m < tmins t"
  by (simp add: compare_def mins_def tmins_def)

lemma compare_plus: "compare m t = 1 \<longleftrightarrow> mins m > tmins t"
  by (simp add: compare_def mins_def tmins_def)

lemma timeFilter_char:
  "timeFilter f t s e items =
     filter (\<lambda>d.
        if f \<noteq> '''' \<and> t \<noteq> '''' \<and> tmins s > tmins e
        then mins d \<ge> tmins s \<or> mins d \<le> tmins e
        else (f \<noteq> '''' \<longrightarrow> mins d \<ge> tmins s) \<and> (t \<noteq> '''' \<longrightarrow> mins d \<le> tmins e)) items"
proof -
  have "timeFilterStep f t s e (f \<noteq> '''' \<and> t \<noteq> '''' \<and> tmins s > tmins e) [] d \<noteq> [] \<longleftrightarrow>
        (if f \<noteq> '''' \<and> t \<noteq> '''' \<and> tmins s > tmins e
        then mins d \<ge> tmins s \<or> mins d \<le> tmins e
        else (f \<noteq> '''' \<longrightarrow> mins d \<ge> tmins s) \<and> (t \<noteq> '''' \<longrightarrow> mins d \<le> tmins e))" for d
    by (auto simp: timeFilterStep_def compare_minus compare_plus)
  then show ?thesis
    by (auto simp: timeFilter_def Let_def foldl_step_filter tmins_def[symmetric])
qed

lemma mins_plain:
  "\<bar>Hour d\<bar> < 2 ^ 50 \<Longrightarrow> \<bar>Minute d\<bar> < 2 ^ 50 \<Longrightarrow> mins d = Hour d * 60 + Minute d"
  by (simp add: mins_def minuteOfDay_def wrap64_def)

text \<open>
  C5, as stated, fails on a record whose hour and minute are not a time of day
  (the program does not validate what the device or a file supplies).  With the
  bounds 21:00 and 09:00 a record with hour 24 and minute 0 is kept, although
  its minute of day, 1440, lies neither in [1260, 1439] nor in [0, 540].
\<close>

theorem timeFilter_keeps_out_of_range_record:
  "timeFilter ''21:00'' ''09:00'' \<lparr>hour = 21, minute = 0\<rparr> \<lparr>hour = 9, minute = 0\<rparr>
     [recordAt 24 0] = [recordAt 24 0] \<and>
   tmins \<lparr>hour = 21, minute = 0\<rparr> = 1260 \<and> tmins \<lparr>hour = 9, minute = 0\<rparr> = 540 \<and>
   mins (recordAt 24 0) = 1440 \<and>
   mins (recordAt 24 0) \<notin> {1260..1439} \<union> {0..540}"
  by (simp add: timeFilter_char tmins_def mins_def minuteOfDay_def wrap64_def recordAt_def)

text \<open>
  C5, amended.  The filter keeps exactly the records, in their order, whose
  minute of day \<^verbatim>\<open>hour*60+minute\<close> is: at least \<open>fromTime\<close> or at most
  \<open>toTime\<close>, when both bounds are given and \<open>fromTime > toTime\<close>; otherwise
  at least \<open>fromTime\<close> if that bound is given and at most \<open>toTime\<close> if that
  bound is given.  For a record whose minute of day lies in 0..1439 the first
  case is membership in [fromTime, 1439] or [0, toTime].  The minute of day is
  the plain \<open>hour * 60 + minute\<close> unless that overflows.  With the bounds 21:00
  and 09:00 the records at 23:30 and 06:00 are kept and the one at 15:00 is
  dropped.
\<close>

theorem timeFilter_window:
  "timeFilter fromTime toTime startTime endTime items =
     filter (\<lambda>d.
        if fromTime \<noteq> '''' \<and> toTime \<noteq> '''' \<and> tmins startTime > tmins endTime
        then mins d \<ge> tmins startTime \<or> mins d \<le> tmins endTime
        else (fromTime \<noteq> '''' \<longrightarrow> mins d \<ge> tmins startTime) \<and>
             (toTime \<noteq> '''' \<longrightarrow> mins d \<le> tmins endTime)) items \<and>
   (\<forall>d. 0 \<le> mins d \<and> mins d \<le> 1439 \<longrightarrow>
      (mins d \<ge> tmins startTime \<or> mins d \<le> tmins endTime) =
      (mins d \<in> {tmins startTime..1439} \<union> {0..tmins endTime})) \<and>
   (\<forall>d. \<bar>Hour d\<bar> < 2 ^ 50 \<and> \<bar>Minute d\<bar> < 2 ^ 50 \<longrightarrow> mins d = Hour d * 60 + Minute d) \<and>
   timeFilter ''21:00'' ''09:00'' \<lparr>hour = 21, minute = 0\<rparr> \<lparr>hour = 9, minute = 0\<rparr>
     [recordAt 23 30, recordAt 15 0, recordAt 6 0] = [recordAt 23 30, recordAt 6 0]"
proof -
  have ex: "timeFilter ''21:00'' ''09:00'' \<lparr>hour = 21, minute = 0\<rparr> \<lparr>hour = 9, minute = 0\<rparr>
     [recordAt 23 30, recordAt 15 0, recordAt 6 0] = [recordAt 23 30, recordAt 6 0]"
    by (simp add: timeFilter_char tmins_def mins_def minuteOfDay_def wrap64_def recordAt_def)
  have w: "\<forall>d. 0 \<le> mins d \<and> mins d \<le> 1439 \<longrightarrow>
      (mins d \<ge> tmins startTime \<or> mins d \<le> tmins endTime) =
      (mins d \<in> {tmins startTime..1439} \<union> {0..tmins endTime})"
    by auto
  show ?thesis using timeFilter_char[of fromTime toTime startTime endTime items] w ex mins_plain
    by blast
qed

theorem timeFilter_window_witness:
  "timeFilter ''06:00'' ''12:00'' \<lparr>hour = 6, minute = 0\<rparr> \<lparr>hour = 12, minute = 0\<rparr>
     [recordAt 23 30, recordAt 12 0, recordAt 6 0, recordAt 5 59]
     = [recordAt 12 0, recordAt 6 0] \<and>
   timeFilter ''21:00'' '''' \<lparr>hour = 21, minute = 0\<rparr> \<lparr>hour = 0, minute = 0\<rparr>
     [recordAt 23 30, recordAt 12 0] = [recordAt 23 30] \<and>
   mins (recordAt 23 30) = 23 * 60 + 30"
proof -
  have m: "mins (recordAt 23 30) = 1410" "mins (recordAt 12 0) = 720"
      "mins (recordAt 6 0) = 360" "mins (recordAt 5 59) = 359"
    by (simp_all add: mins_def minuteOfDay_def wrap64_def recordAt_def)
  have t: "tmins \<lparr>hour = 6, minute = 0\<rparr> = 360" "tmins \<lparr>hour = 12, minute = 0\<rparr> = 720"
      "tmins \<lparr>hour = 21, minute = 0\<rparr> = 1260" "tmins \<lparr>hour = 0, minute = 0\<rparr> = 0"
    by (simp_all add: tmins_def minuteOfDay_def wrap64_def)
  show ?thesis
    using timeFilter_window[of "''06:00''" "''12:00''" "\<lparr>hour = 6, minute = 0\<rparr>"
              "\<lparr>hour = 12, minute = 0\<rparr>"
              "[recordAt 23 30, recordAt 12 0, recordAt 6 0, recordAt 5 59]"]
      timeFilter_window[of "''21:00''" "''''" "\<lparr>hour = 21, minute = 0\<rparr>"
              "\<lparr>hour = 0, minute = 0\<rparr>" "[recordAt 23 30, recordAt 12 0]"]
    by (simp add: m t)
qed

section \<open>Properties of the date-range filter\<close>

lemma timeSub_neg: "timeSub t u < 0 \<longleftrightarrow> t < u"
  by (simp add: timeSub_def maxDuration_def minDuration_def)

lemma timeSub_nonpos: "timeSub t u \<le> 0 \<longleftrightarrow> t \<le> u"
  by (simp add: timeSub_def maxDuration_def minDuration_def)

lemma firstIndex_None: "firstIndex P xs = None \<longleftrightarrow> (\<forall>x\<in>set xs. \<not> P x)"
  by (induction xs) auto

lemma firstIndex_Some_take:
  "firstIndex P xs = Some i \<Longrightarrow>
   take i xs = takeWhile (\<lambda>x. \<not> P x) xs \<and> drop i xs = dropWhile (\<lambda>x. \<not> P x) xs"
  by (induction xs arbitrary: i) (auto split: if_splits)

lemma takeWhile_sorted_filter:
  "sorted_wrt (\<lambda>a b. ts b \<le> ts a) xs \<Longrightarrow>
   takeWhile (\<lambda>x. \<not> ts x < (c::int)) xs = filter (\<lambda>x. c \<le> ts x) xs"
proof (induction xs)
  case Nil
  then show ?case by simp
next
  case (Cons x xs)
  show ?case
  proof (cases "ts x < c")
    case True
    then have "\<forall>y\<in>set xs. \<not> c \<le> ts y" using Cons.prems by auto
    then have "filter (\<lambda>x. c \<le> ts x) xs = []" by (simp add: filter_empty_conv)
    then show ?thesis using True by simp
  next
    case False
    then show ?thesis using Cons by simp
  qed
qed

lemma dropWhile_sorted_filter:
  "sorted_wrt (\<lambda>a b. ts b \<le> ts a) xs \<Longrightarrow>
   dropWhile (\<lambda>x. \<not> ts x \<le> (c::int)) xs = filter (\<lambda>x. ts x \<le> c) xs"
proof (induction xs)
  case Nil
  then show ?case by simp
next
  case (Cons x xs)
  show ?case
  proof (cases "ts x \<le> c")
    case True
    then have "\<forall>y\<in>set xs. ts y \<le> c" using Cons.prems by auto
    then have "filter (\<lambda>x. ts x \<le> c) xs = xs" by (simp add: filter_id_conv)
    then show ?thesis using True by simp
  next
    case False
    then show ?thesis using Cons by simp
  qed
qed

lemma fromDateFilter_char:
  assumes "sorted_wrt (\<lambda>a b. ts b \<le> ts a) items"
  shows "fromDateFilter ts sd items = filter (\<lambda>m. IsZero sd \<or> sd \<le> ts m) items"
proof (cases "IsZero sd")
  case True
  then show ?thesis by (simp add: fromDateFilter_def)
next
  case False
  show ?thesis
  proof (cases "firstIndex (\<lambda>m. timeSub (ts m) sd < 0) items")
    case None
    then have "\<forall>m\<in>set items. sd \<le> ts m" by (auto simp: firstIndex_None timeSub_neg)
    then have "filter (\<lambda>m. sd \<le> ts m) items = items" by (simp add: filter_id_conv)
    then show ?thesis using False None by (simp add: fromDateFilter_def)
  next
    case (Some i)
    have "take i items = takeWhile (\<lambda>m. \<not> ts m < sd) items"
      using firstIndex_Some_take[OF Some] by (simp add: timeSub_neg)
    then show ?thesis
      using False Some takeWhile_sorted_filter[OF assms, of sd] by (simp add: fromDateFilter_def)
  qed
qed

lemma toDateFilter_char:
  assumes "sorted_wrt (\<lambda>a b. ts b \<le> ts a) items"
    and "IsZero ed \<or> items = [] \<or> (\<exists>m\<in>set items. ts m \<le> ed)"
  shows "toDateFilter ts ed items = filter (\<lambda>m. IsZero ed \<or> ts m \<le> ed) items"
proof (cases "IsZero ed")
  case True
  then show ?thesis by (simp add: toDateFilter_def)
next
  case False
  show ?thesis
  proof (cases "firstIndex (\<lambda>m. timeSub (ts m) ed \<le> 0) items")
    case None
    then have "\<forall>m\<in>set items. \<not> ts m \<le> ed" by (auto simp: firstIndex_None timeSub_nonpos)
    with assms(2) False have "items = []" by auto
    then show ?thesis by (simp add: toDateFilter_def)
  next
    case (Some i)
    have "drop i items = dropWhile (\<lambda>m. \<not> ts m \<le> ed) items"
      using firstIndex_Some_take[OF Some] by (simp add: timeSub_nonpos)
    then show ?thesis
      using False Some dropWhile_sorted_filter[OF assms(1), of ed] by (simp add: toDateFilter_def)
  qed
qed

lemma utcDate_samples:
  "utcDate sampleC = 63600498300000000000"
  "utcDate sampleA = 63600366600000000000"
  "utcDate sampleD = 63599325300000000000"
  by (simp_all add: utcDate_def daysFromCivil_def Let_def sampleA_def sampleC_def sampleD_def)

text \<open>
  C4, as stated, fails: the second loop cuts at the first record whose
  timestamp is not after \<^verbatim>\<open>endDate\<close> (\<^verbatim>\<open>iDate.Sub(endDate) <= 0\<close>), so a
  record taken exactly at \<open>toDate\<close> is kept.  Here \<open>toDate\<close> is the
  timestamp of \<open>sampleC\<close>, 2016-06-02 21:05, and the collection is sorted
  latest first both by its fields and by its timestamps.
\<close>

theorem toDate_keeps_equal_timestamp:
  "\<not> IsZero (utcDate sampleC) \<and>
   sorted_wrt isLater [sampleC, sampleA] \<and>
   sorted_wrt (\<lambda>a b. utcDate b \<le> utcDate a) [sampleC, sampleA] \<and>
   dateFilter utcDate 0 (utcDate sampleC) [sampleC, sampleA] = [sampleC, sampleA]"
proof -
  have fields: "sorted_wrt isLater [sampleC, sampleA]"
    by (simp add: isLater_def sampleA_def sampleC_def)
  have stamps: "\<not> IsZero (utcDate sampleC) \<and>
      sorted_wrt (\<lambda>a b. utcDate b \<le> utcDate a) [sampleC, sampleA] \<and>
      dateFilter utcDate 0 (utcDate sampleC) [sampleC, sampleA] = [sampleC, sampleA]"
    by (simp add: utcDate_samples dateFilter_def fromDateFilter_def toDateFilter_def IsZero_def
          timeSub_def maxDuration_def minDuration_def)
  show ?thesis using fields stamps by blast
qed

text \<open>
  When no record at all is at or before \<open>toDate\<close> the second loop never
  breaks and every record stays, where the filter should leave none.
\<close>

lemma toDate_before_all_keeps_all:
  "dateFilter utcDate 0 (utcDate sampleD) [sampleC, sampleA] = [sampleC, sampleA]"
  by (simp add: utcDate_samples dateFilter_def fromDateFilter_def toDateFilter_def IsZero_def
        timeSub_def maxDuration_def minDuration_def)

text \<open>
  The two loops compare timestamps, the values \<^verbatim>\<open>time.Date\<close> builds from the
  fields of a record, and they rely on these descending along the collection.
  The order \<^verbatim>\<open>isLater\<close>, which is all that \<^verbatim>\<open>mergeItems\<close> establishes, is
  the order of the fields; it gives the order of the timestamps when
  \<^verbatim>\<open>time.Date\<close> is monotone on the records at hand, as it is on real calendar
  dates in a zone whose clock is never set back, and not otherwise: merged,
  \<open>sampleE\<close> comes before \<open>sampleF\<close>, whose timestamp is one minute later,
  and with that timestamp as \<open>fromDate\<close> the first loop cuts at index 0 and
  drops \<open>sampleF\<close> too.
\<close>

lemma timestamp_order_from_isLater:
  assumes "sorted_wrt isLater items"
    and "\<forall>a\<in>set items. \<forall>b\<in>set items. isLater a b \<longrightarrow> timeDate b \<le> timeDate a"
  shows "sorted_wrt (\<lambda>a b. timeDate b \<le> timeDate a) items"
  using assms by (simp add: sorted_wrt_iff_nth_less)

lemma isLater_order_is_not_timestamp_order:
  "mergeItems insertionSort [sampleF, sampleE] [] = [sampleE, sampleF] \<and>
   sorted_wrt isLater [sampleE, sampleF] \<and>
   utcDate sampleE < utcDate sampleF \<and>
   dateFilter utcDate (utcDate sampleF) 0 [sampleE, sampleF] = [] \<and>
   filter (\<lambda>m. utcDate sampleF \<le> utcDate m) [sampleE, sampleF] = [sampleF]"
  by (simp add: mergeItems_def insertionSort_def insertIfMissing_def isLater_def
        sampleE_def sampleF_def utcDate_def daysFromCivil_def Let_def
        dateFilter_def fromDateFilter_def toDateFilter_def IsZero_def
        timeSub_def maxDuration_def minDuration_def)

text \<open>
  C4, amended.  On a collection whose timestamps descend (the timestamp of
  each record, as \<^verbatim>\<open>time.Date\<close> builds it from year, month, day, hour and
  minute, is at least that of every record after it), the date-range filter
  keeps exactly the records whose timestamp is at least \<open>fromDate\<close>, when
  that bound is given, and at most \<open>toDate\<close>, when that bound is given (a
  record taken exactly at \<open>toDate\<close> is kept), provided that some record
  within the \<open>fromDate\<close> bound is at or before \<open>toDate\<close>; and if every
  record lies before a given \<open>fromDate\<close> the result is empty.  A bound is
  given when it is not the zero instant.
\<close>

theorem dateFilter_sorted:
  assumes "sorted_wrt (\<lambda>a b. timeDate b \<le> timeDate a) items"
  shows "((IsZero endDate \<or>
           (\<exists>m\<in>set items. (IsZero startDate \<or> startDate \<le> timeDate m) \<and>
                           timeDate m \<le> endDate))
          \<longrightarrow> dateFilter timeDate startDate endDate items =
               filter (\<lambda>m. (IsZero startDate \<or> startDate \<le> timeDate m) \<and>
                            (IsZero endDate \<or> timeDate m \<le> endDate)) items) \<and>
         (\<not> IsZero startDate \<and> (\<forall>m\<in>set items. timeDate m < startDate)
          \<longrightarrow> dateFilter timeDate startDate endDate items = [])"
proof -
  let ?mid = "filter (\<lambda>m. IsZero startDate \<or> startDate \<le> timeDate m) items"
  have f: "fromDateFilter timeDate startDate items = ?mid"
    by (rule fromDateFilter_char[OF assms])
  have sm: "sorted_wrt (\<lambda>a b. timeDate b \<le> timeDate a) ?mid"
    using assms by (rule sorted_wrt_filter)
  have one: "dateFilter timeDate startDate endDate items =
               filter (\<lambda>m. (IsZero startDate \<or> startDate \<le> timeDate m) \<and>
                            (IsZero endDate \<or> timeDate m \<le> endDate)) items"
    if "IsZero endDate \<or>
           (\<exists>m\<in>set items. (IsZero startDate \<or> startDate \<le> timeDate m) \<and>
                           timeDate m \<le> endDate)"
  proof -
    from that have "IsZero endDate \<or> ?mid = [] \<or> (\<exists>m\<in>set ?mid. timeDate m \<le> endDate)"
      by auto
    from toDateFilter_char[OF sm this] show ?thesis
      by (simp add: dateFilter_def f conj_commute)
  qed
  have two: "dateFilter timeDate startDate endDate items = []"
    if "\<not> IsZero startDate \<and> (\<forall>m\<in>set items. timeDate m < startDate)"
  proof -
    from that have "?mid = []" by (auto simp: filter_empty_conv)
    then show ?thesis by (simp add: dateFilter_def f toDateFilter_def)
  qed
  show ?thesis using one two by blast
qed

theorem dateFilter_sorted_witness:
  "sorted_wrt (\<lambda>a b. utcDate b \<le> utcDate a) [sampleC, sampleA, sampleD] \<and>
   dateFilter utcDate (utcDate sampleD + 1) (utcDate sampleA) [sampleC, sampleA, sampleD]
     = [sampleA] \<and>
   dateFilter utcDate (utcDate sampleC + 1) 0 [sampleC, sampleA, sampleD] = []"
proof -
  have s: "sorted_wrt (\<lambda>a b. utcDate b \<le> utcDate a) [sampleC, sampleA, sampleD]"
    by (simp add: utcDate_samples)
  show ?thesis
    using s dateFilter_sorted[OF s, of "utcDate sampleA" "utcDate sampleD + 1"]
      dateFilter_sorted[OF s, of 0 "utcDate sampleC + 1"]
    by (simp add: utcDate_samples IsZero_def)
qed

section \<open>Properties of the statistics\<close>

lemma addItem_count: "snd (foldl addItem acc items) = snd acc + int (length items)"
  by (induction items arbitrary: acc) (simp_all add: addItem_def)

lemma average_err:
  "snd (average fl items) =
     (if items = [] then Some (Errorf ''cannot compute average: empty set'') else None)"
  by (simp add: average_def Let_def addItem_count)

lemma average_empty:
  "average fl [] = (zeroMeasurement, Some (Errorf ''cannot compute average: empty set''))"
  by (simp add: average_def)

lemma intMedian_Some: "numbers \<noteq> [] \<Longrightarrow> \<exists>v. intMedian numbers = Some v"
proof -
  assume "numbers \<noteq> []"
  then have pos: "0 < length numbers" by simp
  then have lt: "length numbers div 2 < length numbers" by simp
  show ?thesis
  proof (cases "length numbers mod 2 = 0")
    case True
    with pos have "0 < length numbers div 2" by presburger
    then show ?thesis using lt True by (simp add: intMedian_def Let_def)
  next
    case False
    then show ?thesis using lt by (simp add: intMedian_def Let_def)
  qed
qed

lemma sort_not_Nil: "xs \<noteq> [] \<Longrightarrow> sort xs \<noteq> []"
proof
  assume "xs \<noteq> []" and "sort xs = []"
  then have "length xs = 0" using length_sort[of "\<lambda>x. x" xs] by simp
  with \<open>xs \<noteq> []\<close> show False by simp
qed

text \<open>On a non-empty collection \<^verbatim>\<open>median\<close> neither panics nor reports an error.\<close>

lemma median_ok:
  assumes ne: "items \<noteq> []"
  shows "\<exists>m. median items = Some (m, None)"
proof -
  obtain s where s: "intMedian (sort (map Systolic items)) = Some s"
    using intMedian_Some[of "sort (map Systolic items)"] sort_not_Nil[of "map Systolic items"] ne
    by auto
  obtain d where d: "intMedian (sort (map Diastolic items)) = Some d"
    using intMedian_Some[of "sort (map Diastolic items)"] sort_not_Nil[of "map Diastolic items"] ne
    by auto
  obtain p where p: "intMedian (sort (map Pulse items)) = Some p"
    using intMedian_Some[of "sort (map Pulse items)"] sort_not_Nil[of "map Pulse items"] ne
    by auto
  have "median items =
          Some (zeroMeasurement\<lparr>Systolic := s, Diastolic := d, Pulse := p\<rparr>, None)"
    unfolding median_def Let_def s d p using ne by simp
  then show ?thesis by blast
qed

lemma stdDeviation_err:
  "snd (stdDeviation fl items) =
     (if length items \<le> 1 then Some (Errorf ''cannot compute deviation: set too small'')
      else None)"
proof (cases "length items \<le> 1")
  case True
  then show ?thesis by (simp add: stdDeviation_def)
next
  case False
  then have "items \<noteq> []" by auto
  then have "snd (average fl items) = None" by (simp add: average_err)
  then show ?thesis using False
    by (simp add: stdDeviation_def Let_def split_beta)
qed

lemma avgAbsoluteDeviation_err:
  "snd (avgAbsoluteDeviation fl items) =
     (if length items \<le> 1 then Some (Errorf ''cannot compute deviation: set too small'')
      else None)"
proof (cases "length items \<le> 1")
  case True
  then show ?thesis by (simp add: avgAbsoluteDeviation_def)
next
  case False
  then have "items \<noteq> []" by auto
  then have "snd (average fl items) = None" by (simp add: average_err)
  then show ?thesis using False
    by (simp add: avgAbsoluteDeviation_def Let_def split_beta)
qed

text \<open>
  C8.  Whatever the floating-point operations compute: \<^verbatim>\<open>average\<close> and
  \<^verbatim>\<open>median\<close> return the zero record with the empty-set error on the empty
  collection and no error on any other; \<^verbatim>\<open>stdDeviation\<close> and
  \<^verbatim>\<open>avgAbsoluteDeviation\<close> return the zero record with the set-too-small error
  on a collection of at most one record and no error on any other; the two
  errors differ; and \<^verbatim>\<open>median\<close> never panics.
\<close>

theorem statistics_size_preconditions:
  "average fl items =
     (if items = []
      then (zeroMeasurement, Some (Errorf ''cannot compute average: empty set''))
      else (fst (average fl items), None)) \<and>
   (\<exists>m. median items =
      Some (if items = []
            then (zeroMeasurement, Some (Errorf ''cannot compute average: empty set''))
            else (m, None))) \<and>
   stdDeviation fl items =
     (if length items \<le> 1
      then (zeroMeasurement, Some (Errorf ''cannot compute deviation: set too small''))
      else (fst (stdDeviation fl items), None)) \<and>
   avgAbsoluteDeviation fl items =
     (if length items \<le> 1
      then (zeroMeasurement, Some (Errorf ''cannot compute deviation: set too small''))
      else (fst (avgAbsoluteDeviation fl items), None)) \<and>
   Errorf ''cannot compute average: empty set''
     \<noteq> Errorf ''cannot compute deviation: set too small''"
proof -
  have a: "average fl items =
     (if items = []
      then (zeroMeasurement, Some (Errorf ''cannot compute average: empty set''))
      else (fst (average fl items), None))"
    using average_err[of fl items] average_empty[of fl]
    by (cases "items = []") (simp_all add: prod_eq_iff)
  have m: "\<exists>m. median items =
      Some (if items = []
            then (zeroMeasurement, Some (Errorf ''cannot compute average: empty set''))
            else (m, None))"
    using median_ok[of items] by (cases "items = []") (simp_all add: median_def)
  have s: "stdDeviation fl items =
     (if length items \<le> 1
      then (zeroMeasurement, Some (Errorf ''cannot compute deviation: set too small''))
      else (fst (stdDeviation fl items), None))"
    using stdDeviation_err[of fl items]
    by (cases "length items \<le> 1") (simp_all add: prod_eq_iff stdDeviation_def)
  have d: "avgAbsoluteDeviation fl items =
     (if length items \<le> 1
      then (zeroMeasurement, Some (Errorf ''cannot compute deviation: set too small''))
      else (fst (avgAbsoluteDeviation fl items), None))"
    using avgAbsoluteDeviation_err[of fl items]
    by (cases "length items \<le> 1") (simp_all add: prod_eq_iff avgAbsoluteDeviation_def)
  have e: "Errorf ''cannot compute average: empty set''
     \<noteq> Errorf ''cannot compute deviation: set too small''" by simp
  show ?thesis using a m s d e by blast
qed

section \<open>Properties of the protocol\<close>

subsection \<open>The read loop\<close>

lemma recording_simps [simp]:
  "openPort (recording io) dev (w, tr) =
     (fst (openPort io dev w), (snd (openPort io dev w), tr @ [Opened dev (fst (openPort io dev w))]))"
  "portWrite (recording io) q (w, tr) =
     (fst (portWrite io q w), (snd (portWrite io q w), tr @ [Wrote q (fst (portWrite io q w))]))"
  "portRead (recording io) cap (w, tr) =
     ((take cap (fst (fst (portRead io cap w))), snd (fst (portRead io cap w))),
      (snd (portRead io cap w),
       tr @ [Read (take cap (fst (fst (portRead io cap w)))) (snd (fst (portRead io cap w)))]))"
  "portClose (recording io) (w, tr) =
     (fst (portClose io w), (snd (portClose io w), tr @ [Closed (fst (portClose io w))]))"
  by (simp_all add: recording_def split: prod.splits)

lemma length_store: "t + length chunk \<le> length b \<Longrightarrow> length (store b t chunk) = length b"
  by (simp add: store_def)

lemma take_store: "t + length chunk \<le> length b \<Longrightarrow> take (t + length chunk) (store b t chunk) = take t b @ chunk"
  by (simp add: store_def)

text \<open>
  On every port: when the read loop returns, it returns no error and at least
  the number of bytes asked for.
\<close>

lemma getDataLoop_returns:
  assumes run: "getDataLoop io sizeN t b w = Some r"
  shows "case r of Returns ((n, e), b') w' \<Rightarrow> e = None \<and> sizeN \<le> n \<and> t \<le> n
                 | Exits e w' \<Rightarrow> True"
proof (rule getDataLoop.raw_induct
    [where P = "\<lambda>io sizeN t b w r.
       case r of Returns ((n, e), b') w' \<Rightarrow> e = None \<and> sizeN \<le> n \<and> t \<le> n
               | Exits e w' \<Rightarrow> True", OF _ run])
  fix f :: "'a port \<Rightarrow> nat \<Rightarrow> nat \<Rightarrow> byte list \<Rightarrow> 'a \<Rightarrow> ((nat \<times> err option) \<times> byte list, 'a) run option"
  fix io sizeN t b w r
  assume IH: "\<And>io sizeN t b w r. f io sizeN t b w = Some r \<Longrightarrow>
      (case r of Returns ((n, e), b') w' \<Rightarrow> e = None \<and> sizeN \<le> n \<and> t \<le> n
               | Exits e w' \<Rightarrow> True)"
    and step: "(if t < sizeN then
        (case portRead io (length b - t) w of
           ((chunk, Some e), w') \<Rightarrow> Some (Exits (ChannelError e) w')
         | ((chunk, None), w') \<Rightarrow>
             f io sizeN (t + length (take (length b - t) chunk))
               (store b t (take (length b - t) chunk)) w')
      else Some (Returns ((t, None), b) w)) = Some r"
  show "case r of Returns ((n, e), b') w' \<Rightarrow> e = None \<and> sizeN \<le> n \<and> t \<le> n
                | Exits e w' \<Rightarrow> True"
  proof (cases "t < sizeN")
    case False
    with step show ?thesis by auto
  next
    case True
    obtain chunk er w1 where rd: "portRead io (length b - t) w = ((chunk, er), w1)"
      by (cases "portRead io (length b - t) w") auto
    show ?thesis
    proof (cases er)
      case (Some s)
      with step True rd show ?thesis by auto
    next
      case None
      with step True rd
      have "f io sizeN (t + length (take (length b - t) chunk))
               (store b t (take (length b - t) chunk)) w1 = Some r"
        by simp
      from IH[OF this] show ?thesis by (auto split: run.splits)
    qed
  qed
qed

lemma getData_returns:
  "getData io buf sizeN w = Some (Returns ((n, e), buf') w') \<Longrightarrow> e = None \<and> sizeN \<le> n"
  using getDataLoop_returns[of io sizeN 0 buf w "Returns ((n, e), buf') w'"]
  by (simp add: getData_def)

lemma getDataLoop_more:
  "t < sizeN \<Longrightarrow> getDataLoop io sizeN t b w =
     (case portRead io (length b - t) w of
        ((chunk, Some e), w') \<Rightarrow> Some (Exits (ChannelError e) w')
      | ((chunk, None), w') \<Rightarrow>
          getDataLoop io sizeN (t + length (take (length b - t) chunk))
            (store b t (take (length b - t) chunk)) w')"
  by (subst getDataLoop.simps) simp

lemma getDataLoop_done:
  "\<not> t < sizeN \<Longrightarrow> getDataLoop io sizeN t b w = Some (Returns ((t, None), b) w)"
  by (subst getDataLoop.simps) simp

text \<open>
  On a responsive port the read loop ends, provided the buffer can hold the
  bytes asked for: it returns, or a failed read ends the process.
\<close>

lemma getDataLoop_terminates:
  assumes "responsive io" "sizeN \<le> length b" "t \<le> length b"
  shows "(\<exists>e w'. getDataLoop io sizeN t b w = Some (Exits e w')) \<or>
         (\<exists>n b' w'. getDataLoop io sizeN t b w = Some (Returns ((n, None), b') w') \<and>
           length b' = length b)"
  using assms(2,3)
proof (induction "sizeN - t" arbitrary: t b w rule: less_induct)
  case less
  show ?case
  proof (cases "t < sizeN")
    case False
    then show ?thesis by (simp add: getDataLoop_done)
  next
    case True
    then have cap: "0 < length b - t" using less.prems by simp
    obtain chunk er w1 where rd: "portRead io (length b - t) w = ((chunk, er), w1)"
      by (cases "portRead io (length b - t) w") auto
    show ?thesis
    proof (cases er)
      case (Some s)
      then show ?thesis using True rd by (simp add: getDataLoop_more)
    next
      case None
      with assms(1) cap rd have ne: "chunk \<noteq> []"
        unfolding responsive_def by (metis fst_conv snd_conv)
      define c where "c = take (length b - t) chunk"
      have pos: "0 < length c" using ne cap by (simp add: c_def)
      have le: "t + length c \<le> length b" using less.prems by (simp add: c_def)
      have len: "length (store b t c) = length b" using le by (simp add: length_store)
      have "sizeN - (t + length c) < sizeN - t" using pos True by arith
      from less.hyps[OF this, of "store b t c" w1] less.prems(1) le len
      have "(\<exists>e w'. getDataLoop io sizeN (t + length c) (store b t c) w1 = Some (Exits e w')) \<or>
         (\<exists>n b' w'. getDataLoop io sizeN (t + length c) (store b t c) w1
              = Some (Returns ((n, None), b') w') \<and> length b' = length b)"
        by simp
      then show ?thesis using True rd None by (simp add: getDataLoop_more c_def)
    qed
  qed
qed

lemma getData_terminates:
  assumes "responsive io" "sizeN \<le> length buf"
  shows "(\<exists>e w'. getData io buf sizeN w = Some (Exits e w')) \<or>
         (\<exists>n buf' w'. getData io buf sizeN w = Some (Returns ((n, None), buf') w') \<and>
           length buf' = length buf)"
  using getDataLoop_terminates[OF assms, of 0 w] by (simp add: getData_def)

text \<open>
  On a recording port: the trace of the read loop.
\<close>

lemma readsOutcome_step:
  assumes "readsOutcome sizeN (t + length c) (store b t c) (tr @ [Read c None]) cs r"
    and "t + length c \<le> length b" and "t < sizeN"
  shows "readsOutcome sizeN t b tr (c # cs) r"
proof (cases r)
  case (Exits e wt)
  then show ?thesis using assms(1)
    by (cases wt) (auto simp: readsOutcome_def reads_def)
next
  case (Returns a wt)
  obtain n e b' where a: "a = ((n, e), b')" by (cases a) auto
  obtain w' tr' where wt: "wt = (w', tr')" by (cases wt) auto
  have ts: "take (t + length c) (store b t c) = take t b @ c"
    using assms(2) by (simp add: take_store)
  have ls: "length (store b t c) = length b" using assms(2) by (simp add: length_store)
  show ?thesis
    using assms(1,3) unfolding Returns a wt readsOutcome_def
    by (auto simp: ts ls reads_def add.assoc)
qed

lemma getDataLoop_trace:
  assumes run: "getDataLoop (recording io) sizeN t b (w, tr) = Some r"
    and le: "t \<le> length b"
  shows "\<exists>cs. readsOutcome sizeN t b tr cs r"
proof -
  have "recording io = recording io \<longrightarrow> t \<le> length b \<longrightarrow>
        (\<exists>cs. readsOutcome sizeN t b (snd (w, tr)) cs r)"
  proof (rule getDataLoop.raw_induct
    [where P = "\<lambda>rio sizeN t b wt r. rio = recording io \<longrightarrow> t \<le> length b \<longrightarrow>
        (\<exists>cs. readsOutcome sizeN t b (snd wt) cs r)", OF _ run])
    fix f :: "('a \<times> event list) port \<Rightarrow> nat \<Rightarrow> nat \<Rightarrow> byte list \<Rightarrow> 'a \<times> event list \<Rightarrow>
              ((nat \<times> err option) \<times> byte list, 'a \<times> event list) run option"
    fix rio sizeN t b wt r
    assume IH: "\<And>rio sizeN t b wt r. f rio sizeN t b wt = Some r \<Longrightarrow>
        rio = recording io \<longrightarrow> t \<le> length b \<longrightarrow>
        (\<exists>cs. readsOutcome sizeN t b (snd wt) cs r)"
      and step: "(if t < sizeN then
        (case portRead rio (length b - t) wt of
           ((chunk, Some e), w') \<Rightarrow> Some (Exits (ChannelError e) w')
         | ((chunk, None), w') \<Rightarrow>
             f rio sizeN (t + length (take (length b - t) chunk))
               (store b t (take (length b - t) chunk)) w')
      else Some (Returns ((t, None), b) wt)) = Some r"
    show "rio = recording io \<longrightarrow> t \<le> length b \<longrightarrow>
        (\<exists>cs. readsOutcome sizeN t b (snd wt) cs r)"
    proof (intro impI)
      assume rio: "rio = recording io" and le: "t \<le> length b"
      obtain w tr where wt: "wt = (w, tr)" by (cases wt) auto
      show "\<exists>cs. readsOutcome sizeN t b (snd wt) cs r"
      proof (cases "t < sizeN")
        case False
        with step have "r = Returns ((t, None), b) wt" by auto
        then have "readsOutcome sizeN t b (snd wt) [] r"
          using wt le False by (simp add: readsOutcome_def reads_def)
        then show ?thesis by blast
      next
        case True
        obtain chunk er w1 where rd: "portRead io (length b - t) w = ((chunk, er), w1)"
          by (cases "portRead io (length b - t) w") auto
        let ?c = "take (length b - t) (take (length b - t) chunk)"
        have c: "?c = take (length b - t) chunk" by simp
        show ?thesis
        proof (cases er)
          case (Some s)
          with step True rd wt rio
          have "r = Exits (ChannelError s) (w1, tr @ [Read ?c (Some s)])" by auto
          then have "readsOutcome sizeN t b (snd wt) [] r"
            using wt by (simp add: readsOutcome_def reads_def)
          then show ?thesis by blast
        next
          case None
          with step True rd wt rio
          have rec: "f rio sizeN (t + length ?c) (store b t ?c) (w1, tr @ [Read ?c None]) = Some r"
            by auto
          have le': "t + length ?c \<le> length b" using le by simp
          then have "t + length ?c \<le> length (store b t ?c)" by (simp add: length_store)
          with IH[OF rec] rio obtain cs where
            "readsOutcome sizeN (t + length ?c) (store b t ?c) (tr @ [Read ?c None]) cs r"
            by auto
          from readsOutcome_step[OF this le' True] show ?thesis using wt by auto
        qed
      qed
    qed
  qed
  then show ?thesis using le by simp
qed

lemma getData_trace:
  assumes "getData (recording io) buf sizeN (w, tr) = Some r"
  shows "\<exists>cs. readsOutcome sizeN 0 buf tr cs r"
  using getDataLoop_trace[of io sizeN 0 buf w tr r] assms by (simp add: getData_def)

lemma getData_cases:
  assumes "getData (recording io) buf sizeN wt = Some g"
  obtains (exit) cs c s wt' where
      "g = Exits (ChannelError s) wt'" "snd wt' = snd wt @ reads cs @ [Read c (Some s)]"
  | (ret) cs buf' wt' where
      "g = Returns ((length (concat cs), None), buf') wt'" "snd wt' = snd wt @ reads cs"
      "length buf' = length buf" "take (length (concat cs)) buf' = concat cs"
      "sizeN \<le> length (concat cs)" "cs \<noteq> [] \<longrightarrow> length (concat (butlast cs)) < sizeN"
proof -
  obtain w tr where wt: "wt = (w, tr)" by (cases wt) auto
  from getData_trace[of io buf sizeN w tr g] assms wt
  obtain cs where cs: "readsOutcome sizeN 0 buf tr cs g" by auto
  show thesis
  proof (cases g)
    case (Exits e wt')
    with cs obtain c s where "snd wt' = tr @ reads cs @ [Read c (Some s)]" "e = ChannelError s"
      by (cases wt') (auto simp: readsOutcome_def)
    then show ?thesis using exit[of s wt' cs c] Exits wt by simp
  next
    case (Returns a wt')
    obtain n er buf' where a: "a = ((n, er), buf')" by (cases a) auto
    from cs Returns a have
      "snd wt' = tr @ reads cs" "n = length (concat cs)" "er = None" "length buf' = length buf"
      "take n buf' = concat cs" "sizeN \<le> n" "cs \<noteq> [] \<longrightarrow> length (concat (butlast cs)) < sizeN"
      by (cases wt'; simp add: readsOutcome_def)+
    then show ?thesis using ret[of cs buf' wt'] Returns a wt by simp
  qed
qed

subsection \<open>The records loop\<close>

lemma decodeRecord_take:
  assumes "take n b' = xs" and "9 \<le> n"
  shows "decodeRecord b' = decodeRecord xs"
proof -
  have "b' ! k = xs ! k" if "k < 9" for k
    using assms that by (metis less_le_trans nth_take)
  then show ?thesis by (simp add: decodeRecord_def)
qed

lemma fetchRecords_trace:
  assumes "fetchRecords (recording io) idxs items buf (w, tr) = Some r"
  shows "\<exists>evs. traceOf r = tr @ evs \<and> recordsRun idxs items evs (resultOf r)"
  using assms
proof (induction idxs arbitrary: items buf w tr)
  case Nil
  then show ?case by (auto intro: recordsRun.finished)
next
  case (Cons i rest)
  let ?q = "recordRequest i"
  obtain e w1 where wr: "portWrite io ?q w = (e, w1)" by (cases "portWrite io ?q w") auto
  show ?case
  proof (cases e)
    case (Some s)
    with Cons.prems wr have "r = Returns (items, Some (ChannelError s)) (w1, tr @ [Wrote ?q (Some s)])"
      by auto
    then show ?thesis by (auto intro: recordsRun.write_failed)
  next
    case None
    let ?tr1 = "tr @ [Wrote ?q None]"
    from None Cons.prems wr obtain g where g: "getData (recording io) buf 9 (w1, ?tr1) = Some g"
      by (cases "getData (recording io) buf 9 (w1, ?tr1)") auto
    from getData_trace[OF g] obtain cs where cs: "readsOutcome 9 0 buf ?tr1 cs g" by blast
    show ?thesis
    proof (cases g)
      case (Exits e2 wt2)
      obtain w2 tr2 where wt2: "wt2 = (w2, tr2)" by (cases wt2) auto
      from cs Exits wt2 obtain c s where
        tr2: "tr2 = ?tr1 @ reads cs @ [Read c (Some s)]" and e2: "e2 = ChannelError s"
        by (auto simp: readsOutcome_def)
      from None Cons.prems wr g Exits have "r = Exits e2 wt2" by auto
      then show ?thesis using wt2 tr2 e2 by (auto intro: recordsRun.read_failed)
    next
      case (Returns a wt2)
      obtain n er buf' where a: "a = ((n, er), buf')" by (cases a) auto
      obtain w2 tr2 where wt2: "wt2 = (w2, tr2)" by (cases wt2) auto
      from cs Returns a wt2 have
        tr2: "tr2 = ?tr1 @ reads cs" and n: "n = length (concat cs)" "9 \<le> n"
        and tk: "take n buf' = concat cs"
        by (auto simp: readsOutcome_def)
      have dec: "decodeRecord buf' = decodeRecord (concat cs)"
        using decodeRecord_take[OF tk n(2)] .
      from None Cons.prems wr g Returns a wt2
      have "fetchRecords (recording io) rest (items @ [decodeRecord buf']) buf' (w2, tr2) = Some r"
        by auto
      from Cons.IH[OF this] obtain evs where
        evs: "traceOf r = tr2 @ evs" "recordsRun rest (items @ [decodeRecord buf']) evs (resultOf r)"
        by blast
      have "recordsRun (i # rest) items (Wrote ?q None # reads cs @ evs) (resultOf r)"
        using recordsRun.fetched[of cs rest items evs "resultOf r" i] evs(2) n dec by simp
      then show ?thesis using evs(1) tr2 by auto
    qed
  qed
qed

lemma fetchRecords_trace':
  assumes "fetchRecords (recording io) idxs items buf wt = Some r"
  shows "\<exists>evs. traceOf r = snd wt @ evs \<and> recordsRun idxs items evs (resultOf r)"
  using fetchRecords_trace[of io idxs items buf "fst wt" "snd wt" r] assms by simp

lemma fetchRecords_terminates:
  assumes "responsive io" "9 \<le> length buf"
  shows "\<exists>r. fetchRecords io idxs items buf w = Some r"
  using assms(2)
proof (induction idxs arbitrary: items buf w)
  case Nil
  then show ?case by simp
next
  case (Cons i rest)
  obtain e w1 where wr: "portWrite io (recordRequest i) w = (e, w1)"
    by (cases "portWrite io (recordRequest i) w") auto
  show ?case
  proof (cases e)
    case (Some s)
    then show ?thesis using wr by simp
  next
    case None
    from getData_terminates[OF assms(1) Cons.prems, of w1]
    consider (exit) e w2 where "getData io buf 9 w1 = Some (Exits e w2)"
      | (ret) n buf' w2 where
          "getData io buf 9 w1 = Some (Returns ((n, None), buf') w2)" "length buf' = length buf"
      by blast
    then show ?thesis
    proof cases
      case exit
      then show ?thesis using wr None by simp
    next
      case ret
      from Cons.IH[of buf' "items @ [decodeRecord buf']" w2] ret(2) Cons.prems
      obtain r where "fetchRecords io rest (items @ [decodeRecord buf']) buf' w2 = Some r"
        by auto
      then show ?thesis using wr None ret(1) by simp
    qed
  qed
qed

subsection \<open>Every run of the fetch follows one of the rules\<close>

lemma open_effect:
  "openPort (recording io) dev wt = (e, wt') \<Longrightarrow> snd wt' = snd wt @ [Opened dev e]"
  by (cases wt) auto

lemma write_effect:
  "portWrite (recording io) q wt = (e, wt') \<Longrightarrow> snd wt' = snd wt @ [Wrote q e]"
  by (cases wt) auto

lemma close_effect: "\<exists>c. snd (snd (portClose (recording io) wt)) = snd wt @ [Closed c]"
  by (cases wt) auto

lemma single_from_take:
  assumes "take (length xs) buf = xs" "length xs = 1"
  shows "xs = [buf ! 0]"
proof -
  from assms obtain x where x: "xs = [x]" by (cases xs) auto
  with assms(1) have "take 1 buf = [x]" by simp
  then have "buf ! 0 = x" by (cases buf) auto
  with x show ?thesis by simp
qed

lemma last_chunk_long:
  assumes "cs \<noteq> [] \<longrightarrow> length (concat (butlast cs)) < 1" "1 \<le> length (concat cs)"
    "length (concat cs) \<noteq> 1"
  shows "cs \<noteq> [] \<and> concat (butlast cs) = [] \<and> 2 \<le> length (last cs)"
proof -
  from assms(2) have ne: "cs \<noteq> []" by auto
  with assms(1) have e: "concat (butlast cs) = []" by simp
  have "concat cs = concat (butlast cs) @ last cs"
    using ne by (metis append_butlast_last_id concat.simps concat_append append_Nil2)
  with e have "length (last cs) = length (concat cs)" by simp
  with assms(2,3) ne e show ?thesis by auto
qed

lemma fetchData_run:
  assumes run: "fetchData srt (recording io) dev (w0, []) = Some r"
  shows "fetchRun srt dev (traceOf r) (resultOf r)"
proof -
  let ?rio = "recording io"
  note [simp del] = recording_simps
  obtain e1 wt1 where o: "openPort ?rio dev (w0, []) = (e1, wt1)"
    by (cases "openPort ?rio dev (w0, [])") auto
  have t1: "snd wt1 = [Opened dev e1]" using open_effect[OF o] by simp
  show ?thesis
  proof (cases e1)
    case (Some s)
    then have "r = Returns ([], Some (ChannelError s)) wt1"
      using run o by (simp add: fetchData_def)
    then show ?thesis using t1 Some by (simp add: fetchRun.open_failed)
  next
    case None
    note e1 = None
    obtain e2 wt2 where w2: "portWrite ?rio [0xaa] wt1 = (e2, wt2)"
      by (cases "portWrite ?rio [0xaa] wt1") auto
    have t2: "snd wt2 = [Opened dev None, Wrote [0xaa] e2]"
      using write_effect[OF w2] t1 e1 by simp
    show ?thesis
    proof (cases e2)
      case (Some s)
      then have "r = Returns ([], Some (ChannelError s)) wt2"
        using run o e1 w2 by (simp add: fetchData_def)
      then show ?thesis using t2 Some by (simp add: fetchRun.hs_write_failed)
    next
      case None
      note e2 = None
      obtain g1 where g1: "getData ?rio (replicate 128 0) 1 wt2 = Some g1"
        using run o e1 w2 e2
        by (cases "getData ?rio (replicate 128 0) 1 wt2") (auto simp: fetchData_def)
      from g1 show ?thesis
      proof (cases rule: getData_cases)
        case (exit hs c s wt3)
        then have "r = Exits (ChannelError s) wt3"
          using run o e1 w2 e2 g1 by (simp add: fetchData_def)
        then show ?thesis using exit(2) t2 e2 fetchRun.hs_read_failed[of srt dev hs c s]
          by (simp add: hsTrace_def)
      next
        case (ret hs buf1 wt3)
        have t3: "snd wt3 = hsTrace dev hs" using ret(2) t2 e2 by (simp add: hsTrace_def)
        have l1: "length buf1 = 128" using ret(3) by simp
        show ?thesis
        proof (cases "length (concat hs) = 1 \<and> buf1 ! 0 = 0x55")
          case False
          then have "r = Returns ([], Some (Errorf ''handshake failed'')) (snd (portClose ?rio wt3))"
            using run o e1 w2 e2 g1 ret(1) by (simp add: fetchData_def)
          moreover have "concat hs \<noteq> [0x55]"
          proof
            assume a: "concat hs = [0x55]"
            then have "buf1 ! 0 = 0x55" using single_from_take[OF ret(4)] by simp
            with a False show False by simp
          qed
          moreover obtain c where "snd (snd (portClose ?rio wt3)) = snd wt3 @ [Closed c]"
            using close_effect[of io wt3] by blast
          ultimately show ?thesis
            using fetchRun.hs_mismatch[of hs srt dev c] t3 by simp
        next
          case True
          then have hs: "concat hs = [0x55]" using single_from_take[OF ret(4)] by simp
          obtain e4 wt4 where w4: "portWrite ?rio [0xa4] wt3 = (e4, wt4)"
            by (cases "portWrite ?rio [0xa4] wt3") auto
          have t4: "snd wt4 = hsTrace dev hs @ [Wrote [0xa4] e4]"
            using write_effect[OF w4] t3 by simp
          show ?thesis
          proof (cases e4)
            case (Some s)
            then have "r = Returns ([], Some (ChannelError s)) wt4"
              using run o e1 w2 e2 g1 ret(1) True w4 by (simp add: fetchData_def)
            then show ?thesis
              using t4 Some fetchRun.desc_write_failed[OF hs, of srt dev s] by simp
          next
            case None
            note e4 = None
            obtain g2 where g2: "getData ?rio buf1 32 wt4 = Some g2"
              using run o e1 w2 e2 g1 ret(1) True w4 e4
              by (cases "getData ?rio buf1 32 wt4") (auto simp: fetchData_def)
            from g2 show ?thesis
            proof (cases rule: getData_cases)
              case (exit ds c s wt5)
              then have "r = Exits (ChannelError s) wt5"
                using run o e1 w2 e2 g1 ret(1) True w4 e4 g2 by (simp add: fetchData_def)
              then show ?thesis
                using exit(2) t4 e4 fetchRun.desc_read_failed[OF hs, of srt dev ds c s]
                by (simp add: descTrace_def)
            next
              case (ret ds buf2 wt5)
              note r2 = ret
              have t5: "snd wt5 = descTrace dev hs ds"
                using r2(2) t4 e4 by (simp add: descTrace_def)
              have ds: "32 \<le> length (concat ds)" using r2(5) .
              obtain e6 wt6 where w6: "portWrite ?rio [0xa2] wt5 = (e6, wt6)"
                by (cases "portWrite ?rio [0xa2] wt5") auto
              have t6: "snd wt6 = descTrace dev hs ds @ [Wrote [0xa2] e6]"
                using write_effect[OF w6] t5 by simp
              note pre = run o e1 w2 e2 g1 \<open>g1 = Returns ((length (concat hs), None), buf1) wt3\<close>
                True w4 e4 g2 r2(1) w6
              show ?thesis
              proof (cases e6)
                case (Some s)
                then have "r = Returns ([], Some (ChannelError s)) wt6"
                  using pre by (simp add: fetchData_def)
                then show ?thesis
                  using t6 Some fetchRun.count_write_failed[OF hs ds, of srt dev s] by simp
              next
                case None
                note e6 = None
                obtain g3 where g3: "getData ?rio buf2 1 wt6 = Some g3"
                  using pre e6
                  by (cases "getData ?rio buf2 1 wt6") (auto simp: fetchData_def)
                from g3 show ?thesis
                proof (cases rule: getData_cases)
                  case (exit cs c s wt7)
                  then have "r = Exits (ChannelError s) wt7"
                    using pre e6 g3 by (simp add: fetchData_def)
                  then show ?thesis
                    using exit(2) t6 e6 fetchRun.count_read_failed[OF hs ds, of srt dev cs c s]
                    by (simp add: countTrace_def)
                next
                  case (ret cs buf3 wt7)
                  note r3 = ret
                  have t7: "snd wt7 = countTrace dev hs ds cs"
                    using r3(2) t6 e6 by (simp add: countTrace_def)
                  show ?thesis
                  proof (cases "length (concat cs) = 1")
                    case False
                    then have "r = Returns ([], Some (Errorf ''no measurement found'')) wt7"
                      using pre e6 g3 r3(1) by (simp add: fetchData_def)
                    moreover have "cs \<noteq> [] \<and> concat (butlast cs) = [] \<and> 2 \<le> length (last cs)"
                      using last_chunk_long[OF r3(6) r3(5) False] .
                    ultimately show ?thesis
                      using t7 fetchRun.no_measurement[OF hs ds, of cs srt dev] by simp
                  next
                    case True
                    note n1 = True
                    have cnt: "concat cs = [buf3 ! 0]" using single_from_take[OF r3(4) n1] .
                    obtain lr where lr:
                      "fetchRecords ?rio [0..<unat (buf3 ! 0)] [] buf3 wt7 = Some lr"
                      using pre e6 g3 r3(1) n1
                      by (cases "fetchRecords ?rio [0..<unat (buf3 ! 0)] [] buf3 wt7")
                         (auto simp: fetchData_def)
                    from fetchRecords_trace'[OF lr] obtain evs where
                      evs: "traceOf lr = snd wt7 @ evs"
                        "recordsRun [0..<unat (buf3 ! 0)] [] evs (resultOf lr)"
                      by blast
                    show ?thesis
                    proof (cases lr)
                      case (Exits e wt8)
                      then have "r = Exits e wt8"
                        using pre e6 g3 r3(1) n1 lr by (simp add: fetchData_def)
                      then show ?thesis
                        using evs Exits t7 fetchRun.records_exit[OF hs ds cnt, of evs e srt dev]
                        by simp
                    next
                      case (Returns a wt8)
                      obtain items er where a: "a = (items, er)" by (cases a) auto
                      show ?thesis
                      proof (cases er)
                        case (Some e)
                        then have "r = Returns (items, Some e) wt8"
                          using pre e6 g3 r3(1) n1 lr Returns a by (simp add: fetchData_def)
                        then show ?thesis
                          using evs Returns a Some t7
                            fetchRun.records_stopped[OF hs ds cnt, of evs items e srt dev]
                          by simp
                      next
                        case None
                        then have "r = Returns (mergeItems srt items [], None)
                                         (snd (portClose ?rio wt8))"
                          using pre e6 g3 r3(1) n1 lr Returns a by (simp add: fetchData_def)
                        moreover obtain c where
                          "snd (snd (portClose ?rio wt8)) = snd wt8 @ [Closed c]"
                          using close_effect[of io wt8] by blast
                        ultimately show ?thesis
                          using evs Returns a None t7
                            fetchRun.success[OF hs ds cnt, of evs items srt dev c]
                          by simp
                      qed
                    qed
                  qed
                qed
              qed
            qed
          qed
        qed
      qed
    qed
  qed
qed

lemma fetchData_terminates:
  assumes "responsive io"
  shows "\<exists>r. fetchData srt io dev w0 = Some r"
proof -
  have g: "(\<exists>e w'. getData io buf k w = Some (Exits e w')) \<or>
           (\<exists>n buf' w'. getData io buf k w = Some (Returns ((n, None), buf') w') \<and>
              length buf' = 128)"
    if "length buf = 128" "k \<le> 128" for buf k w
    using getData_terminates[OF assms, of k buf w] that by simp
  have l: "\<exists>r. fetchRecords io idxs [] buf w = Some r" if "length buf = 128" for idxs buf w
    using fetchRecords_terminates[OF assms, of buf idxs "[]" w] that by simp
  obtain e1 w1 where o: "openPort io dev w0 = (e1, w1)" by (cases "openPort io dev w0") auto
  obtain e2 w2 where a: "portWrite io [0xaa] w1 = (e2, w2)" by (cases "portWrite io [0xaa] w1") auto
  from g[of "replicate 128 0" 1 w2]
  consider (exit) x w3 where "getData io (replicate 128 0) 1 w2 = Some (Exits x w3)"
    | (ret) n1 b1 w3 where
        "getData io (replicate 128 0) 1 w2 = Some (Returns ((n1, None), b1) w3)" "length b1 = 128"
    by auto
  then show ?thesis
  proof cases
    case exit
    then show ?thesis
      unfolding fetchData_def using o a by (auto split: option.splits prod.splits)
  next
    case ret
    note g1 = ret
    obtain e4 w4 where b: "portWrite io [0xa4] w3 = (e4, w4)"
      by (cases "portWrite io [0xa4] w3") auto
    from g[of b1 32 w4] g1(2)
    consider (exit) x w5 where "getData io b1 32 w4 = Some (Exits x w5)"
      | (ret) n2 b2 w5 where
          "getData io b1 32 w4 = Some (Returns ((n2, None), b2) w5)" "length b2 = 128"
      by auto
    then show ?thesis
    proof cases
      case exit
      then show ?thesis
        unfolding fetchData_def using o a g1(1) b by (auto split: option.splits prod.splits)
    next
      case ret
      note g2 = ret
      obtain e6 w6 where c: "portWrite io [0xa2] w5 = (e6, w6)"
        by (cases "portWrite io [0xa2] w5") auto
      from g[of b2 1 w6] g2(2)
      consider (exit) x w7 where "getData io b2 1 w6 = Some (Exits x w7)"
        | (ret) n3 b3 w7 where
            "getData io b2 1 w6 = Some (Returns ((n3, None), b3) w7)" "length b3 = 128"
        by auto
      then show ?thesis
      proof cases
        case exit
        then show ?thesis
          unfolding fetchData_def using o a g1(1) b g2(1) c
          by (auto split: option.splits prod.splits)
      next
        case ret
        note g3 = ret
        from l[of b3 "[0..<unat (b3 ! 0)]" w7] g3(2) obtain lr where
          lr: "fetchRecords io [0..<unat (b3 ! 0)] [] b3 w7 = Some lr" by auto
        show ?thesis
          unfolding fetchData_def
          using o a g1(1) b g2(1) c g3(1) lr
          by (auto split: option.splits run.splits prod.splits)
      qed
    qed
  qed
qed

lemma responsive_recording: "responsive io \<Longrightarrow> responsive (recording io)"
  unfolding responsive_def
proof (intro allI impI)
  fix cap :: nat and wt :: "'a \<times> event list"
  assume r: "\<forall>cap w. 0 < cap \<longrightarrow>
        snd (fst (portRead io cap w)) \<noteq> None \<or> fst (fst (portRead io cap w)) \<noteq> []"
    and cap: "0 < cap"
  obtain w tr where wt: "wt = (w, tr)" by (cases wt) auto
  from r cap have "snd (fst (portRead io cap w)) \<noteq> None \<or> fst (fst (portRead io cap w)) \<noteq> []"
    by blast
  then show "snd (fst (portRead (recording io) cap wt)) \<noteq> None \<or>
        fst (fst (portRead (recording io) cap wt)) \<noteq> []"
    using cap by (auto simp: wt)
qed

subsection \<open>Reading a trace\<close>

lemma failures_append [simp]: "failures (xs @ ys) = failures xs @ failures ys"
  by (induction xs) (auto split: option.splits)

lemma failures_reads [simp]: "failures (reads cs) = []"
  by (induction cs) (auto simp: reads_def)

lemma failures_last:
  "evs \<noteq> [] \<Longrightarrow> failure (last evs) = Some s \<Longrightarrow> failures evs \<noteq> []"
proof -
  assume "evs \<noteq> []" and f: "failure (last evs) = Some s"
  then have "failures evs = failures (butlast evs @ [last evs])" by simp
  also have "\<dots> = failures (butlast evs) @ [s]" using f by simp
  finally show ?thesis by simp
qed

lemma exchanges_append: "exchanges (tr @ evs) = foldl addEvent (exchanges tr) evs"
  by (simp add: exchanges_def)

lemma foldl_addEvent_reads:
  "foldl addEvent (acc @ [(q, bs)]) (reads cs) = acc @ [(q, bs @ concat cs)]"
  by (induction cs arbitrary: bs) (auto simp: reads_def)

lemma foldl_addEvent_reads0:
  "foldl addEvent (acc @ [(q, [])]) (reads cs) = acc @ [(q, concat cs)]"
  using foldl_addEvent_reads[of acc q "[]" cs] by simp

lemma foldl_addEvent_round:
  "foldl addEvent acc (Wrote q e # reads cs @ evs) =
     foldl addEvent (acc @ [(q, concat cs)]) evs"
  using foldl_addEvent_reads[of acc q "[]" cs] by simp

lemma map_snd_zip_same: "length reqs = length resps \<Longrightarrow> map (f \<circ> snd) (zip reqs resps) = map f resps"
  by (induction reqs resps rule: list_induct2) auto

lemma map_snd_zip_len: "length reqs = length resps \<Longrightarrow> map snd (zip reqs resps) = resps"
  by (induction reqs resps rule: list_induct2) auto

lemma map_fst_zip_len: "length reqs = length resps \<Longrightarrow> map fst (zip reqs resps) = reqs"
  by (induction reqs resps rule: list_induct2) auto

lemma reads_snoc: "cs \<noteq> [] \<Longrightarrow> reads cs = reads (butlast cs) @ [Read (last cs) None]"
proof -
  assume "cs \<noteq> []"
  then have "reads cs = reads (butlast cs @ [last cs])" by simp
  then show ?thesis by (simp add: reads_def)
qed

lemma concat_butlast_empty:
  "cs \<noteq> [] \<Longrightarrow> concat (butlast cs) = [] \<Longrightarrow> concat cs = last cs"
proof -
  assume ne: "cs \<noteq> []" and em: "concat (butlast cs) = []"
  from ne have "concat cs = concat (butlast cs @ [last cs])" by simp
  also have "\<dots> = concat (butlast cs) @ last cs" by simp
  finally show ?thesis using em by simp
qed

lemma recordsRun_outcome:
  "recordsRun idxs items evs out \<Longrightarrow>
   (case out of
      Inl e \<Rightarrow> (\<exists>c s. e = ChannelError s \<and> evs \<noteq> [] \<and> last evs = Read c (Some s) \<and>
                      failures (butlast evs) = [])
    | Inr (items', None) \<Rightarrow>
        failures evs = [] \<and>
        (\<exists>resps. length resps = length idxs \<and> (\<forall>resp\<in>set resps. 9 \<le> length resp) \<and>
           items' = items @ map decodeRecord resps \<and>
           (\<forall>acc. foldl addEvent acc evs = acc @ zip (map recordRequest idxs) resps))
    | Inr (items', Some e) \<Rightarrow>
        (\<exists>s q resps. e = ChannelError s \<and> evs \<noteq> [] \<and> last evs = Wrote q (Some s) \<and>
           failures (butlast evs) = [] \<and> items' = items @ map decodeRecord resps \<and>
           (\<forall>acc. \<exists>reqs. length reqs = length resps \<and>
                 foldl addEvent acc evs = acc @ zip reqs resps @ [(q, [])])))"
proof (induction rule: recordsRun.induct)
  case (finished items)
  then show ?case by simp
next
  case (write_failed i rest items s)
  then show ?case by (auto intro!: exI[of _ "[]"])
next
  case (read_failed i rest items cs c s)
  then show ?case by (simp add: butlast_append)
next
  case (fetched cs rest items evs out i)
  show ?case
  proof (cases out)
    case (Inl e)
    with fetched.IH obtain c s where
      "e = ChannelError s" "evs \<noteq> []" "last evs = Read c (Some s)" "failures (butlast evs) = []"
      by auto
    then show ?thesis using Inl by (simp add: butlast_append)
  next
    case (Inr a)
    obtain items' er where a: "a = (items', er)" by (cases a) auto
    show ?thesis
    proof (cases er)
      case None
      with fetched.IH Inr a obtain resps where r:
        "failures evs = []" "length resps = length rest" "\<forall>resp\<in>set resps. 9 \<le> length resp"
        "items' = (items @ [decodeRecord (concat cs)]) @ map decodeRecord resps"
        "\<forall>acc. foldl addEvent acc evs = acc @ zip (map recordRequest rest) resps"
        by auto
      have "\<forall>acc. foldl addEvent acc (Wrote (recordRequest i) None # reads cs @ evs) =
              acc @ zip (map recordRequest (i # rest)) (concat cs # resps)"
        using r(5) by (simp add: foldl_addEvent_reads0)
      then show ?thesis
        using Inr a None r(1-4) fetched.hyps(1)
        by (auto intro!: exI[of _ "concat cs # resps"])
    next
      case (Some e)
      with fetched.IH Inr a obtain s q resps where r:
        "e = ChannelError s" "evs \<noteq> []" "last evs = Wrote q (Some s)"
        "failures (butlast evs) = []"
        "items' = (items @ [decodeRecord (concat cs)]) @ map decodeRecord resps"
        "\<forall>acc. \<exists>reqs. length reqs = length resps \<and>
                 foldl addEvent acc evs = acc @ zip reqs resps @ [(q, [])]"
        by auto
      have "\<exists>reqs. length reqs = length (concat cs # resps) \<and>
              foldl addEvent acc (Wrote (recordRequest i) None # reads cs @ evs) =
              acc @ zip reqs (concat cs # resps) @ [(q, [])]" for acc
      proof -
        from r(6) obtain reqs where "length reqs = length resps"
          "foldl addEvent (acc @ [(recordRequest i, concat cs)]) evs =
             (acc @ [(recordRequest i, concat cs)]) @ zip reqs resps @ [(q, [])]"
          by blast
        then show ?thesis
          by (intro exI[of _ "recordRequest i # reqs"]) (simp add: foldl_addEvent_reads0)
      qed
      then have key: "\<forall>acc. \<exists>reqs. length reqs = length (concat cs # resps) \<and>
              foldl addEvent acc (Wrote (recordRequest i) None # reads cs @ evs) =
              acc @ zip reqs (concat cs # resps) @ [(q, [])]"
        by blast
      have "\<exists>s q resps. e = ChannelError s \<and>
              Wrote (recordRequest i) None # reads cs @ evs \<noteq> [] \<and>
              last (Wrote (recordRequest i) None # reads cs @ evs) = Wrote q (Some s) \<and>
              failures (butlast (Wrote (recordRequest i) None # reads cs @ evs)) = [] \<and>
              items' = items @ map decodeRecord resps \<and>
              (\<forall>acc. \<exists>reqs. length reqs = length resps \<and>
                 foldl addEvent acc (Wrote (recordRequest i) None # reads cs @ evs) =
                   acc @ zip reqs resps @ [(q, [])])"
        using r(1-5) key
        by (intro exI[of _ s] exI[of _ q] exI[of _ "concat cs # resps"])
           (simp add: butlast_append)
      then show ?thesis using Inr a Some by simp
    qed
  qed
qed

lemma recordsRun_error:
  "recordsRun idxs items evs (Inr (items', Some e)) \<Longrightarrow> \<exists>s. e = ChannelError s"
  using recordsRun_outcome[of idxs items evs "Inr (items', Some e)"] by auto

lemma exchanges_hsTrace: "exchanges (hsTrace dev hs) = [([0xaa], concat hs)]"
  using foldl_addEvent_reads0[of "[]" "[0xaa]" hs] by (simp add: exchanges_def hsTrace_def)

lemma exchanges_descTrace:
  "exchanges (descTrace dev hs ds) = [([0xaa], concat hs), ([0xa4], concat ds)]"
  using foldl_addEvent_reads0[of "[([0xaa], concat hs)]" "[0xa4]" ds]
  by (simp add: exchanges_append descTrace_def exchanges_hsTrace)

lemma exchanges_countTrace:
  "exchanges (countTrace dev hs ds cs) =
     [([0xaa], concat hs), ([0xa4], concat ds), ([0xa2], concat cs)]"
  using foldl_addEvent_reads0[of "[([0xaa], concat hs), ([0xa4], concat ds)]" "[0xa2]" cs]
  by (simp add: exchanges_append countTrace_def exchanges_descTrace)

lemma failures_traces [simp]:
  "failures (hsTrace dev hs) = []"
  "failures (descTrace dev hs ds) = []"
  "failures (countTrace dev hs ds cs) = []"
  by (simp_all add: hsTrace_def descTrace_def countTrace_def)

lemma recordRequests: "map recordRequest [0..<n] = map (\<lambda>i. [0xa3, of_nat i]) [1..<Suc n]"
proof -
  have "map (\<lambda>i. [0xa3, of_nat i] :: byte list) [1..<Suc n] = map (\<lambda>i. [0xa3, of_nat i]) (map Suc [0..<n])"
    by (simp only: map_Suc_upt One_nat_def)
  also have "\<dots> = map recordRequest [0..<n]"
    by (simp add: recordRequest_def comp_def)
  finally show ?thesis by simp
qed

lemma fetchRun_success_inv:
  assumes "fetchRun srt dev tr (Inr (items, None))"
  shows "\<exists>hs ds cs cnt evs items0.
           (\<exists>c. tr = countTrace dev hs ds cs @ evs @ [Closed c]) \<and> concat hs = [0x55] \<and>
           32 \<le> length (concat ds) \<and> concat cs = [cnt] \<and>
           recordsRun [0..<unat cnt] [] evs (Inr (items0, None)) \<and>
           items = mergeItems srt items0 []"
  using assms by (cases rule: fetchRun.cases) (simp_all, blast)

lemma fetchRun_no_measurement_inv:
  assumes "fetchRun srt dev tr (Inr (items, Some (Errorf ''no measurement found'')))"
  shows "\<exists>hs ds cs. tr = countTrace dev hs ds cs \<and> cs \<noteq> [] \<and> concat (butlast cs) = [] \<and>
           2 \<le> length (last cs)"
  using assms
proof (cases rule: fetchRun.cases)
  case (records_stopped hs ds cs cnt evs)
  then show ?thesis using recordsRun_error by blast
qed (simp_all, blast?)

lemma fetchRun_clean:
  assumes fr: "fetchRun srt dev tr out"
    and ok: "failures tr = []"
    and ex: "map snd (exchanges tr) = [0x55] # desc # [cnt] # rest"
  shows "out = Inr (mergeItems srt (map decodeRecord rest) [], None) \<and>
         length rest = unat cnt \<and> (\<forall>resp\<in>set rest. 9 \<le> length resp) \<and>
         map fst (exchanges tr) =
           [0xaa] # [0xa4] # [0xa2] # map (\<lambda>i. [0xa3, of_nat i]) [1..<Suc (unat cnt)] \<and>
         last tr = Closed None"
  using fr
proof (cases rule: fetchRun.cases)
  case (open_failed s)
  then show ?thesis using ok by simp
next
  case (hs_write_failed s)
  then show ?thesis using ok by simp
next
  case (hs_read_failed hs c s)
  then show ?thesis using ok by simp
next
  case (hs_mismatch hs)
  then show ?thesis using ex by (simp add: exchanges_append exchanges_hsTrace)
next
  case (desc_write_failed hs s)
  then show ?thesis using ok by simp
next
  case (desc_read_failed hs ds c s)
  then show ?thesis using ok by simp
next
  case (count_write_failed hs ds s)
  then show ?thesis using ok by simp
next
  case (count_read_failed hs ds cs c s)
  then show ?thesis using ok by simp
next
  case (no_measurement hs ds cs)
  then have "concat cs = last cs" by (simp add: concat_butlast_empty)
  with no_measurement ex show ?thesis by (auto simp: exchanges_countTrace)
next
  case (records_stopped hs ds cs cnt' evs items e)
  from recordsRun_outcome[OF records_stopped(6)] obtain s q where
    "evs \<noteq> []" "last evs = Wrote q (Some s)" by auto
  then have "failures evs \<noteq> []" using failures_last[of evs s] by simp
  then show ?thesis using ok records_stopped(1) by simp
next
  case (records_exit hs ds cs cnt' evs e)
  from recordsRun_outcome[OF records_exit(6)] obtain c s where
    "evs \<noteq> []" "last evs = Read c (Some s)" by auto
  then have "failures evs \<noteq> []" using failures_last[of evs s] by simp
  then show ?thesis using ok records_exit(1) by simp
next
  case (success hs ds cs cnt' evs items c)
  from recordsRun_outcome[OF success(6)] obtain resps where r:
    "length resps = unat cnt'" "\<forall>resp\<in>set resps. 9 \<le> length resp"
    "items = map decodeRecord resps"
    "\<forall>acc. foldl addEvent acc evs = acc @ zip (map recordRequest [0..<unat cnt']) resps"
    by auto
  have e: "exchanges tr = [([0xaa], [0x55]), ([0xa4], concat ds), ([0xa2], [cnt'])]
                @ zip (map recordRequest [0..<unat cnt']) resps"
    using r(4) success(1,3,5) by (simp add: exchanges_append exchanges_countTrace)
  have s: "map snd (exchanges tr) = [0x55] # concat ds # [cnt'] # resps"
    unfolding e using r(1) by (simp add: map_snd_zip_len)
  have f: "map fst (exchanges tr) =
        [0xaa] # [0xa4] # [0xa2] # map (\<lambda>i. [0xa3, of_nat i]) [1..<Suc (unat cnt')]"
    unfolding e using r(1) by (simp add: map_fst_zip_len recordRequests del: upt_Suc)
  from s ex have "cnt' = cnt" "resps = rest" by simp_all
  moreover have "c = None" using ok success(1) by (cases c) simp_all
  ultimately show ?thesis using success(1,2) r(1-3) f by simp
qed

lemma fetchRun_success_clean:
  assumes "fetchRun srt dev tr (Inr (items, None))"
  shows "sorted_wrt isLater items \<and> failures (butlast tr) = [] \<and> (\<exists>c. last tr = Closed c) \<and>
         (\<exists>desc cnt rest. map snd (exchanges tr) = [0x55] # desc # [cnt] # rest)"
proof -
  from fetchRun_success_inv[OF assms] obtain hs ds cs cnt evs items0 c where
    tr: "tr = countTrace dev hs ds cs @ evs @ [Closed c]" and hs: "concat hs = [0x55]"
    and cs: "concat cs = [cnt]"
    and rr: "recordsRun [0..<unat cnt] [] evs (Inr (items0, None))"
    and items: "items = mergeItems srt items0 []"
    by blast
  from recordsRun_outcome[OF rr] obtain resps where
    f: "failures evs = []" and len: "length resps = unat cnt"
    and ex: "\<forall>acc. foldl addEvent acc evs = acc @ zip (map recordRequest [0..<unat cnt]) resps"
    by auto
  have e: "exchanges tr = [([0xaa], [0x55]), ([0xa4], concat ds), ([0xa2], [cnt])]
                @ zip (map recordRequest [0..<unat cnt]) resps"
    using ex by (simp add: tr exchanges_append exchanges_countTrace hs cs)
  have m: "map snd (exchanges tr) = [0x55] # concat ds # [cnt] # resps"
    unfolding e using len by (simp add: map_snd_zip_len)
  have x: "\<exists>desc cnt rest. map snd (exchanges tr) = [0x55] # desc # [cnt] # rest"
    by (rule exI[of _ "concat ds"], rule exI[of _ cnt], rule exI[of _ resps]) (rule m)
  have s: "sorted_wrt isLater items" unfolding items by (rule mergeItems_sorted)
  have b: "butlast tr = countTrace dev hs ds cs @ evs"
    unfolding tr by (simp add: butlast_append)
  have "failures (butlast tr) = []" unfolding b using f by simp
  moreover have "\<exists>c. last tr = Closed c" unfolding tr by simp
  ultimately show ?thesis using s x by simp
qed

subsection \<open>Three runs on the scripted device\<close>

lemma mockPort_simps [simp]:
  "openPort mockPort dev m = (None, m)"
  "portWrite mockPort q m =
     (case writeErrors m of [] \<Rightarrow> (None, m) | e # es \<Rightarrow> (e, m\<lparr>writeErrors := es\<rparr>))"
  "portRead mockPort cap m =
     (case pending m of [] \<Rightarrow> (([], Some ''EOF''), m) | r # rs \<Rightarrow> (r, m\<lparr>pending := rs\<rparr>))"
  "portClose mockPort m = (None, m)"
  by (simp_all add: mockPort_def)

lemma upt_0_2: "[0..<2] = [0, 1]"
  by (simp add: numeral_2_eq_2 upt_conv_Cons)

lemma good_run:
  "fetchData insertionSort (recording mockPort) ''/dev/ttyUSB0''
     (\<lparr>pending = goodScript, writeErrors = []\<rparr>, [])
   = Some (Returns ([sampleC, sampleA], None) (\<lparr>pending = [], writeErrors = []\<rparr>, goodTrace))"
  by (simp add: fetchData_def getData_def getDataLoop_more getDataLoop_done store_def
        goodScript_def goodTrace_def recordRequest_def decodeRecord_def
        mergeItems_def insertionSort_def insertIfMissing_def isLater_def
        sampleA_def sampleC_def nth_append upt_0_2)

lemma good_merge: "mergeItems insertionSort [sampleA, sampleC] [] = [sampleC, sampleA]"
  by (simp add: mergeItems_def insertionSort_def insertIfMissing_def isLater_def
        sampleA_def sampleC_def)

lemma failing_run:
  "fetchData insertionSort (recording mockPort) ''/dev/ttyUSB0''
     (\<lparr>pending = goodScript,
       writeErrors = [None, None, None, None, Some ''input/output error'']\<rparr>, [])
   = Some (Returns ([sampleA], Some (ChannelError ''input/output error''))
       (\<lparr>pending = [([0, 92, 51, 58, 6, 2, 21, 5, 16], None)], writeErrors = []\<rparr>,
        failTrace))"
  by (simp add: fetchData_def getData_def getDataLoop_more getDataLoop_done store_def
        goodScript_def failTrace_def recordRequest_def decodeRecord_def sampleA_def
        nth_append upt_0_2)

lemma short_run:
  "fetchData insertionSort (recording mockPort) ''/dev/ttyUSB0''
     (\<lparr>pending = [([0x55], None), (replicate 32 0x42, None), ([], None), ([2, 0], None)],
       writeErrors = []\<rparr>, [])
   = Some (Returns ([], Some (Errorf ''no measurement found''))
       (\<lparr>pending = [], writeErrors = []\<rparr>, shortTrace))"
  by (simp add: fetchData_def getData_def getDataLoop_more getDataLoop_done store_def
        shortTrace_def)

lemma short_read:
  "getData mockPort (replicate 128 0) 1 \<lparr>pending = [([], None), ([2, 0], None)], writeErrors = []\<rparr>
   = Some (Returns ((2, None), 2 # 0 # replicate 126 0) \<lparr>pending = [], writeErrors = []\<rparr>)"
  by (simp add: getData_def getDataLoop_more getDataLoop_done store_def)

lemma responsive_steadyPort: "responsive steadyPort"
  by (auto simp: responsive_def steadyPort_def)

subsection \<open>Runs on the scripted device\<close>

text \<open>
  On the scripted device the run is computed from the script.  First the read
  loop: it consumes the chunks of one delivery and stops.
\<close>

lemma mock_read:
  "pending m = (c, None) # rs \<Longrightarrow> length c \<le> cap \<Longrightarrow>
   portRead (recording mockPort) cap (m, tr) = ((c, None), (m\<lparr>pending := rs\<rparr>, tr @ [Read c None]))"
  by simp

lemma getDataLoop_script:
  assumes "cs \<noteq> []" "t + length (concat (butlast cs)) < k" "k \<le> t + length (concat cs)"
    "t + length (concat cs) \<le> length b" "pending m = answered cs @ rest"
  shows "\<exists>b' m'. getDataLoop (recording mockPort) k t b (m, tr)
            = Some (Returns ((t + length (concat cs), None), b') (m', tr @ reads cs)) \<and>
          pending m' = rest \<and> writeErrors m' = writeErrors m \<and> length b' = length b \<and>
          take (t + length (concat cs)) b' = take t b @ concat cs"
  using assms
proof (induction cs arbitrary: t b m tr)
  case Nil
  then show ?case by simp
next
  case (Cons c cs)
  have tk: "t < k" using Cons.prems(2) by simp
  have le: "t + length c \<le> length b" using Cons.prems(4) by simp
  then have fit: "take (length b - t) c = c" by simp
  have pm: "pending m = (c, None) # answered cs @ rest"
    using Cons.prems(5) by (simp add: answered_def)
  have rd: "portRead (recording mockPort) (length b - t) (m, tr)
              = ((c, None), (m\<lparr>pending := answered cs @ rest\<rparr>, tr @ [Read c None]))"
    using mock_read[OF pm, of "length b - t" tr] le by simp
  have step: "getDataLoop (recording mockPort) k t b (m, tr) =
      getDataLoop (recording mockPort) k (t + length c) (store b t c)
        (m\<lparr>pending := answered cs @ rest\<rparr>, tr @ [Read c None])"
    using tk fit by (simp add: getDataLoop_more rd del: recording_simps)
  have ls: "length (store b t c) = length b" using le by (rule length_store)
  have ts: "take (t + length c) (store b t c) = take t b @ c" using le by (rule take_store)
  show ?case
  proof (cases "cs = []")
    case True
    then have "\<not> t + length c < k" using Cons.prems(3) by simp
    then have "getDataLoop (recording mockPort) k t b (m, tr) =
        Some (Returns ((t + length c, None), store b t c)
          (m\<lparr>pending := answered cs @ rest\<rparr>, tr @ [Read c None]))"
      unfolding step by (rule getDataLoop_done)
    then show ?thesis using True ls ts by (simp add: answered_def reads_def)
  next
    case False
    have p2: "(t + length c) + length (concat (butlast cs)) < k"
      using Cons.prems(2) False by simp
    have p3: "k \<le> (t + length c) + length (concat cs)" using Cons.prems(3) by simp
    have p4: "(t + length c) + length (concat cs) \<le> length (store b t c)"
      using Cons.prems(4) ls by simp
    have p5: "pending (m\<lparr>pending := answered cs @ rest\<rparr>) = answered cs @ rest" by simp
    from Cons.IH[OF False p2 p3 p4 p5, of "tr @ [Read c None]"]
    obtain b' m' where r:
      "getDataLoop (recording mockPort) k (t + length c) (store b t c)
         (m\<lparr>pending := answered cs @ rest\<rparr>, tr @ [Read c None])
       = Some (Returns ((t + length c + length (concat cs), None), b')
           (m', (tr @ [Read c None]) @ reads cs))"
      "pending m' = rest" "writeErrors m' = writeErrors (m\<lparr>pending := answered cs @ rest\<rparr>)"
      "length b' = length (store b t c)"
      "take (t + length c + length (concat cs)) b' = take (t + length c) (store b t c) @ concat cs"
      by blast
    have "getDataLoop (recording mockPort) k t b (m, tr)
            = Some (Returns ((t + length (concat (c # cs)), None), b') (m', tr @ reads (c # cs)))"
      unfolding step r(1) by (simp add: reads_def add.assoc)
    moreover have "take (t + length (concat (c # cs))) b' = take t b @ concat (c # cs)"
      using r(5) ts by (simp add: add.assoc)
    ultimately show ?thesis using r(2,3,4) ls by auto
  qed
qed

lemma getData_script:
  assumes "delivery k cs" "length buf = 128" "pending m = answered cs @ rest"
  shows "\<exists>buf' m'. getData (recording mockPort) buf k (m, tr)
            = Some (Returns ((length (concat cs), None), buf') (m', tr @ reads cs)) \<and>
          pending m' = rest \<and> writeErrors m' = writeErrors m \<and> length buf' = 128 \<and>
          take (length (concat cs)) buf' = concat cs"
proof -
  from assms(1) have c: "cs \<noteq> []" "0 + length (concat (butlast cs)) < k"
    "k \<le> 0 + length (concat cs)" "0 + length (concat cs) \<le> length buf"
    using assms(2) by (simp_all add: delivery_def)
  from getDataLoop_script[OF c assms(3), of tr] show ?thesis
    using assms(2) by (simp add: getData_def)
qed

lemma mock_write_ok:
  assumes "\<forall>e\<in>set (take (Suc n) (writeErrors m)). e = None"
  shows "\<exists>m'. portWrite (recording mockPort) q (m, tr) = (None, (m', tr @ [Wrote q None])) \<and>
           pending m' = pending m \<and> writeErrors m' = tl (writeErrors m) \<and>
           (\<forall>e\<in>set (take n (writeErrors m')). e = None)"
proof (cases "writeErrors m")
  case Nil
  then show ?thesis by simp
next
  case (Cons e es)
  with assms show ?thesis by simp
qed

lemma mock_write_fail:
  assumes "0 < length (writeErrors m)" "writeErrors m ! 0 = Some s"
  shows "\<exists>m'. portWrite (recording mockPort) q (m, tr) = (Some s, (m', tr @ [Wrote q (Some s)])) \<and>
           pending m' = pending m \<and> writeErrors m' = tl (writeErrors m)"
  using assms by (cases "writeErrors m") simp_all

text \<open>
  The records loop, when every write succeeds and when the write that follows
  the records \<open>rss\<close> fails.
\<close>

lemma fetchRecords_script:
  assumes "length rss = length idxs" "\<forall>cs\<in>set rss. delivery 9 cs"
    "pending m = answered (concat rss) @ rest"
    "\<forall>e\<in>set (take (length idxs) (writeErrors m)). e = None" "length buf = 128"
  shows "\<exists>m' evs. fetchRecords (recording mockPort) idxs items buf (m, tr)
            = Some (Returns (items @ map (decodeRecord \<circ> concat) rss, None) (m', tr @ evs)) \<and>
          pending m' = rest \<and> writeErrors m' = drop (length idxs) (writeErrors m) \<and>
          failures evs = [] \<and>
          (\<forall>acc. foldl addEvent acc evs = acc @ zip (map recordRequest idxs) (map concat rss))"
  using assms
proof (induction idxs arbitrary: rss items buf m tr)
  case Nil
  then show ?case by (simp add: answered_def)
next
  case (Cons i idxs)
  from Cons.prems(1) obtain cs rss' where rss: "rss = cs # rss'" "length rss' = length idxs"
    by (cases rss) auto
  have dl: "delivery 9 cs" and dl': "\<forall>cs\<in>set rss'. delivery 9 cs"
    using Cons.prems(2) rss by simp_all
  from mock_write_ok[of "length idxs" m "recordRequest i" tr] Cons.prems(4)
  obtain m1 where w: "portWrite (recording mockPort) (recordRequest i) (m, tr)
                        = (None, (m1, tr @ [Wrote (recordRequest i) None]))"
    and m1: "pending m1 = pending m" "writeErrors m1 = tl (writeErrors m)"
      "\<forall>e\<in>set (take (length idxs) (writeErrors m1)). e = None"
    by auto
  have p1: "pending m1 = answered cs @ (answered (concat rss') @ rest)"
    using m1(1) Cons.prems(3) rss by (simp add: answered_def)
  from getData_script[OF dl Cons.prems(5) p1, of "tr @ [Wrote (recordRequest i) None]"]
  obtain buf' m2 where g: "getData (recording mockPort) buf 9 (m1, tr @ [Wrote (recordRequest i) None])
        = Some (Returns ((length (concat cs), None), buf')
            (m2, (tr @ [Wrote (recordRequest i) None]) @ reads cs))"
    and m2: "pending m2 = answered (concat rss') @ rest" "writeErrors m2 = writeErrors m1"
    and b: "length buf' = 128" "take (length (concat cs)) buf' = concat cs"
    by blast
  have "9 \<le> length (concat cs)" using dl by (simp add: delivery_def)
  from decodeRecord_take[OF b(2) this] have dec: "decodeRecord buf' = decodeRecord (concat cs)" .
  have w2: "\<forall>e\<in>set (take (length idxs) (writeErrors m2)). e = None" using m1(3) m2(2) by simp
  from Cons.IH[OF rss(2) dl' m2(1) w2 b(1),
      of "items @ [decodeRecord buf']" "(tr @ [Wrote (recordRequest i) None]) @ reads cs"]
  obtain m' evs where r:
    "fetchRecords (recording mockPort) idxs (items @ [decodeRecord buf']) buf'
        (m2, (tr @ [Wrote (recordRequest i) None]) @ reads cs)
      = Some (Returns ((items @ [decodeRecord buf']) @ map (decodeRecord \<circ> concat) rss', None)
          (m', ((tr @ [Wrote (recordRequest i) None]) @ reads cs) @ evs))"
    "pending m' = rest" "writeErrors m' = drop (length idxs) (writeErrors m2)"
    "failures evs = []"
    "\<forall>acc. foldl addEvent acc evs = acc @ zip (map recordRequest idxs) (map concat rss')"
    by blast
  let ?evs = "Wrote (recordRequest i) None # reads cs @ evs"
  have run: "fetchRecords (recording mockPort) (i # idxs) items buf (m, tr)
      = Some (Returns (items @ map (decodeRecord \<circ> concat) rss, None) (m', tr @ ?evs))"
    using w g r(1) dec rss(1) by (simp del: recording_simps)
  have wr: "writeErrors m' = drop (length (i # idxs)) (writeErrors m)"
    using r(3) m2(2) m1(2) by (simp add: drop_Suc)
  have f: "failures ?evs = []" using r(4) by simp
  have x: "\<forall>acc. foldl addEvent acc ?evs =
             acc @ zip (map recordRequest (i # idxs)) (map concat rss)"
    using r(5) rss(1) by (simp add: foldl_addEvent_reads0)
  show ?case using run r(2) wr f x by blast
qed

lemma fetchRecords_script_stop:
  assumes "length rss < length idxs" "\<forall>cs\<in>set rss. delivery 9 cs"
    "pending m = answered (concat rss) @ rest"
    "\<forall>e\<in>set (take (length rss) (writeErrors m)). e = None"
    "length rss < length (writeErrors m)" "writeErrors m ! length rss = Some s"
    "length buf = 128"
  shows "\<exists>m' evs. fetchRecords (recording mockPort) idxs items buf (m, tr)
            = Some (Returns (items @ map (decodeRecord \<circ> concat) rss, Some (ChannelError s))
                (m', tr @ evs @ [Wrote (recordRequest (idxs ! length rss)) (Some s)])) \<and>
          pending m' = rest \<and> writeErrors m' = drop (Suc (length rss)) (writeErrors m) \<and>
          failures evs = [] \<and>
          (\<forall>acc. foldl addEvent acc evs =
                   acc @ zip (map recordRequest (take (length rss) idxs)) (map concat rss))"
  using assms
proof (induction rss arbitrary: idxs items buf m tr)
  case Nil
  from Nil.prems(1) obtain i idxs' where idxs: "idxs = i # idxs'" by (cases idxs) auto
  from mock_write_fail[of m s "recordRequest i" tr] Nil.prems(5,6)
  obtain m' where w: "portWrite (recording mockPort) (recordRequest i) (m, tr)
                        = (Some s, (m', tr @ [Wrote (recordRequest i) (Some s)]))"
    and m': "pending m' = pending m" "writeErrors m' = tl (writeErrors m)"
    by auto
  have "fetchRecords (recording mockPort) idxs items buf (m, tr)
      = Some (Returns (items, Some (ChannelError s)) (m', tr @ [Wrote (recordRequest i) (Some s)]))"
    using w idxs by (simp del: recording_simps)
  then show ?case using m' Nil.prems(3) idxs
    by (intro exI[of _ m'] exI[of _ "[]"]) (simp add: answered_def drop_Suc)
next
  case (Cons cs rss)
  from Cons.prems(1) obtain i idxs' where idxs: "idxs = i # idxs'" "length rss < length idxs'"
    by (cases idxs) auto
  have dl: "delivery 9 cs" and dl': "\<forall>cs\<in>set rss. delivery 9 cs"
    using Cons.prems(2) by simp_all
  from mock_write_ok[of "length rss" m "recordRequest i" tr] Cons.prems(4)
  obtain m1 where w: "portWrite (recording mockPort) (recordRequest i) (m, tr)
                        = (None, (m1, tr @ [Wrote (recordRequest i) None]))"
    and m1: "pending m1 = pending m" "writeErrors m1 = tl (writeErrors m)"
      "\<forall>e\<in>set (take (length rss) (writeErrors m1)). e = None"
    by auto
  have p1: "pending m1 = answered cs @ (answered (concat rss) @ rest)"
    using m1(1) Cons.prems(3) by (simp add: answered_def)
  from getData_script[OF dl Cons.prems(7) p1, of "tr @ [Wrote (recordRequest i) None]"]
  obtain buf' m2 where g: "getData (recording mockPort) buf 9 (m1, tr @ [Wrote (recordRequest i) None])
        = Some (Returns ((length (concat cs), None), buf')
            (m2, (tr @ [Wrote (recordRequest i) None]) @ reads cs))"
    and m2: "pending m2 = answered (concat rss) @ rest" "writeErrors m2 = writeErrors m1"
    and b: "length buf' = 128" "take (length (concat cs)) buf' = concat cs"
    by blast
  have "9 \<le> length (concat cs)" using dl by (simp add: delivery_def)
  from decodeRecord_take[OF b(2) this] have dec: "decodeRecord buf' = decodeRecord (concat cs)" .
  have w2: "\<forall>e\<in>set (take (length rss) (writeErrors m2)). e = None" using m1(3) m2(2) by simp
  have ne: "writeErrors m \<noteq> []" using Cons.prems(5) by auto
  have l2: "length rss < length (writeErrors m2)"
    using Cons.prems(5) m2(2) m1(2) by simp
  have n2: "writeErrors m2 ! length rss = Some s"
    using Cons.prems(6) m2(2) m1(2) ne by (cases "writeErrors m") simp_all
  from Cons.IH[OF idxs(2) dl' m2(1) w2 l2 n2 b(1),
      of "items @ [decodeRecord buf']" "(tr @ [Wrote (recordRequest i) None]) @ reads cs"]
  obtain m' evs where r:
    "fetchRecords (recording mockPort) idxs' (items @ [decodeRecord buf']) buf'
        (m2, (tr @ [Wrote (recordRequest i) None]) @ reads cs)
      = Some (Returns ((items @ [decodeRecord buf']) @ map (decodeRecord \<circ> concat) rss,
                Some (ChannelError s))
          (m', ((tr @ [Wrote (recordRequest i) None]) @ reads cs) @ evs @
                 [Wrote (recordRequest (idxs' ! length rss)) (Some s)]))"
    "pending m' = rest" "writeErrors m' = drop (Suc (length rss)) (writeErrors m2)"
    "failures evs = []"
    "\<forall>acc. foldl addEvent acc evs =
         acc @ zip (map recordRequest (take (length rss) idxs')) (map concat rss)"
    by blast
  let ?evs = "Wrote (recordRequest i) None # reads cs @ evs"
  have run: "fetchRecords (recording mockPort) idxs items buf (m, tr)
      = Some (Returns (items @ map (decodeRecord \<circ> concat) (cs # rss), Some (ChannelError s))
          (m', tr @ ?evs @ [Wrote (recordRequest (idxs ! length (cs # rss))) (Some s)]))"
    using w g r(1) dec idxs(1) by (simp del: recording_simps)
  have wr: "writeErrors m' = drop (Suc (length (cs # rss))) (writeErrors m)"
    using r(3) m2(2) m1(2) by (simp add: drop_Suc)
  have f: "failures ?evs = []" using r(4) by simp
  have x: "\<forall>acc. foldl addEvent acc ?evs =
             acc @ zip (map recordRequest (take (length (cs # rss)) idxs)) (map concat (cs # rss))"
    using r(5) idxs(1) by (simp add: foldl_addEvent_reads0)
  show ?case using run r(2) wr f x by blast
qed

text \<open>
  The whole function: the three phases before the records loop, then the two
  ways the loop can end.
\<close>

lemma first_byte: "take (length xs) buf = xs \<Longrightarrow> xs = [x] \<Longrightarrow> buf ! 0 = x"
  using single_from_take[of xs buf] by simp

lemma take_split_None:
  "\<forall>e\<in>set (take (a + b) xs). e = None \<Longrightarrow>
   (\<forall>e\<in>set (take a xs). e = None) \<and> (\<forall>e\<in>set (take b (drop a xs)). e = None)"
  by (simp add: take_add)

lemma fetchData_script_prefix:
  assumes hs: "delivery 1 hs" "concat hs = [0x55]" and ds: "delivery 32 ds"
    and cs: "delivery 1 cs" "concat cs = [cnt]"
    and script: "pending m = answered (hs @ ds @ cs) @ rest"
    and writes: "\<forall>e\<in>set (take 3 (writeErrors m)). e = None"
  shows "\<exists>buf m3. length buf = 128 \<and> pending m3 = rest \<and>
     writeErrors m3 = drop 3 (writeErrors m) \<and>
     fetchData srt (recording mockPort) dev (m, []) =
       (case fetchRecords (recording mockPort) [0..<unat cnt] [] buf
               (m3, countTrace dev hs ds cs) of
          None \<Rightarrow> None
        | Some (Exits e w) \<Rightarrow> Some (Exits e w)
        | Some (Returns (items, Some e) w) \<Rightarrow> Some (Returns (items, Some e) w)
        | Some (Returns (items, None) w) \<Rightarrow>
            Some (Returns (mergeItems srt items [], None)
                    (snd (portClose (recording mockPort) w))))"
proof -
  let ?rio = "recording mockPort"
  have o: "openPort ?rio dev (m, []) = (None, (m, [Opened dev None]))" by simp
  have w3: "\<forall>e\<in>set (take (Suc 2) (writeErrors m)). e = None"
    using writes by (simp add: numeral_3_eq_3)
  from mock_write_ok[OF w3, of "[0xaa]" "[Opened dev None]"]
  obtain m1 where a: "portWrite ?rio [0xaa] (m, [Opened dev None])
                        = (None, (m1, [Opened dev None, Wrote [0xaa] None]))"
    and m1: "pending m1 = pending m" "writeErrors m1 = tl (writeErrors m)"
      "\<forall>e\<in>set (take 2 (writeErrors m1)). e = None"
    by auto
  have p1: "pending m1 = answered hs @ (answered (ds @ cs) @ rest)"
    using m1(1) script by (simp add: answered_def)
  from getData_script[OF hs(1) _ p1, of "replicate 128 0" "[Opened dev None, Wrote [0xaa] None]"]
  obtain b1 m2 where g1: "getData ?rio (replicate 128 0) 1 (m1, [Opened dev None, Wrote [0xaa] None])
        = Some (Returns ((length (concat hs), None), b1) (m2, hsTrace dev hs))"
    and m2: "pending m2 = answered (ds @ cs) @ rest" "writeErrors m2 = writeErrors m1"
    and b1: "length b1 = 128" "take (length (concat hs)) b1 = concat hs"
    by (auto simp: hsTrace_def)
  have h0: "b1 ! 0 = 0x55" using first_byte[OF b1(2) hs(2)] .
  have w2: "\<forall>e\<in>set (take (Suc 1) (writeErrors m2)). e = None"
    using m1(3) m2(2) by (simp add: numeral_2_eq_2)
  from mock_write_ok[OF w2, of "[0xa4]" "hsTrace dev hs"]
  obtain m3 where b: "portWrite ?rio [0xa4] (m2, hsTrace dev hs)
                        = (None, (m3, hsTrace dev hs @ [Wrote [0xa4] None]))"
    and m3: "pending m3 = pending m2" "writeErrors m3 = tl (writeErrors m2)"
      "\<forall>e\<in>set (take 1 (writeErrors m3)). e = None"
    by auto
  have p3: "pending m3 = answered ds @ (answered cs @ rest)"
    using m3(1) m2(1) by (simp add: answered_def)
  from getData_script[OF ds b1(1) p3, of "hsTrace dev hs @ [Wrote [0xa4] None]"]
  obtain b2 m4 where g2: "getData ?rio b1 32 (m3, hsTrace dev hs @ [Wrote [0xa4] None])
        = Some (Returns ((length (concat ds), None), b2) (m4, descTrace dev hs ds))"
    and m4: "pending m4 = answered cs @ rest" "writeErrors m4 = writeErrors m3"
    and b2: "length b2 = 128"
    by (auto simp: descTrace_def)
  have w1: "\<forall>e\<in>set (take (Suc 0) (writeErrors m4)). e = None"
    using m3(3) m4(2) by simp
  from mock_write_ok[OF w1, of "[0xa2]" "descTrace dev hs ds"]
  obtain m5 where c: "portWrite ?rio [0xa2] (m4, descTrace dev hs ds)
                        = (None, (m5, descTrace dev hs ds @ [Wrote [0xa2] None]))"
    and m5: "pending m5 = pending m4" "writeErrors m5 = tl (writeErrors m4)"
    by auto
  have p5: "pending m5 = answered cs @ rest" using m5(1) m4(1) by simp
  from getData_script[OF cs(1) b2 p5, of "descTrace dev hs ds @ [Wrote [0xa2] None]"]
  obtain b3 m6 where g3: "getData ?rio b2 1 (m5, descTrace dev hs ds @ [Wrote [0xa2] None])
        = Some (Returns ((length (concat cs), None), b3) (m6, countTrace dev hs ds cs))"
    and m6: "pending m6 = rest" "writeErrors m6 = writeErrors m5"
    and b3: "length b3 = 128" "take (length (concat cs)) b3 = concat cs"
    by (auto simp: countTrace_def)
  have c0: "b3 ! 0 = cnt" using first_byte[OF b3(2) cs(2)] .
  have wr: "writeErrors m6 = drop 3 (writeErrors m)"
    using m6(2) m5(2) m4(2) m3(2) m2(2) m1(2)
    by (simp add: numeral_3_eq_3 drop_Suc tl_drop)
  have run: "fetchData srt ?rio dev (m, []) =
       (case fetchRecords ?rio [0..<unat cnt] [] b3 (m6, countTrace dev hs ds cs) of
          None \<Rightarrow> None
        | Some (Exits e w) \<Rightarrow> Some (Exits e w)
        | Some (Returns (items, Some e) w) \<Rightarrow> Some (Returns (items, Some e) w)
        | Some (Returns (items, None) w) \<Rightarrow>
            Some (Returns (mergeItems srt items [], None) (snd (portClose ?rio w))))"
    unfolding fetchData_def o
    using a g1 b g2 c g3 h0 c0 hs(2) cs(2) by (simp del: recording_simps)
  show ?thesis using b3(1) m6(1) wr run by blast
qed

lemma fetchData_script:
  assumes hs: "delivery 1 hs" "concat hs = [0x55]" and ds: "delivery 32 ds"
    and cs: "delivery 1 cs" "concat cs = [cnt]"
    and rss: "length rss = unat cnt" "\<forall>r\<in>set rss. delivery 9 r"
    and script: "pending m = answered (hs @ ds @ cs @ concat rss) @ rest"
    and writes: "\<forall>e\<in>set (take (3 + unat cnt) (writeErrors m)). e = None"
  shows "\<exists>m' tr. fetchData srt (recording mockPort) dev (m, [])
            = Some (Returns (mergeItems srt (map (decodeRecord \<circ> concat) rss) [], None) (m', tr)) \<and>
          pending m' = rest \<and> writeErrors m' = drop (3 + unat cnt) (writeErrors m) \<and>
          failures tr = [] \<and> last tr = Closed None \<and>
          exchanges tr = [([0xaa], [0x55]), ([0xa4], concat ds), ([0xa2], [cnt])]
                           @ zip (map recordRequest [0..<unat cnt]) (map concat rss)"
proof -
  let ?rio = "recording mockPort"
  from take_split_None[OF writes]
  have w3: "\<forall>e\<in>set (take 3 (writeErrors m)). e = None"
    and wn: "\<forall>e\<in>set (take (unat cnt) (drop 3 (writeErrors m))). e = None"
    by simp_all
  have sc: "pending m = answered (hs @ ds @ cs) @ (answered (concat rss) @ rest)"
    using script by (simp add: answered_def)
  from fetchData_script_prefix[OF hs ds cs sc w3, of srt dev]
  obtain buf m3 where p: "length buf = 128" "pending m3 = answered (concat rss) @ rest"
    "writeErrors m3 = drop 3 (writeErrors m)"
    "fetchData srt ?rio dev (m, []) =
       (case fetchRecords ?rio [0..<unat cnt] [] buf (m3, countTrace dev hs ds cs) of
          None \<Rightarrow> None
        | Some (Exits e w) \<Rightarrow> Some (Exits e w)
        | Some (Returns (items, Some e) w) \<Rightarrow> Some (Returns (items, Some e) w)
        | Some (Returns (items, None) w) \<Rightarrow>
            Some (Returns (mergeItems srt items [], None) (snd (portClose ?rio w))))"
    by blast
  have l: "length rss = length [0..<unat cnt]" using rss(1) by simp
  have wn': "\<forall>e\<in>set (take (length [0..<unat cnt]) (writeErrors m3)). e = None"
    using wn p(3) by simp
  from fetchRecords_script[OF l rss(2) p(2) wn' p(1), of "[]" "countTrace dev hs ds cs"]
  obtain m' evs where r:
    "fetchRecords ?rio [0..<unat cnt] [] buf (m3, countTrace dev hs ds cs)
       = Some (Returns (map (decodeRecord \<circ> concat) rss, None) (m', countTrace dev hs ds cs @ evs))"
    "pending m' = rest" "writeErrors m' = drop (unat cnt) (writeErrors m3)"
    "failures evs = []"
    "\<forall>acc. foldl addEvent acc evs = acc @ zip (map recordRequest [0..<unat cnt]) (map concat rss)"
    by auto
  let ?tr = "countTrace dev hs ds cs @ evs @ [Closed None]"
  have run: "fetchData srt ?rio dev (m, [])
      = Some (Returns (mergeItems srt (map (decodeRecord \<circ> concat) rss) [], None) (m', ?tr))"
    unfolding p(4) r(1) by simp
  have wr: "writeErrors m' = drop (3 + unat cnt) (writeErrors m)"
    using r(3) p(3) by (simp add: add.commute)
  have f: "failures ?tr = []" using r(4) by simp
  have x: "exchanges ?tr = [([0xaa], [0x55]), ([0xa4], concat ds), ([0xa2], [cnt])]
                           @ zip (map recordRequest [0..<unat cnt]) (map concat rss)"
    using r(5) hs(2) cs(2) by (simp add: exchanges_append exchanges_countTrace)
  have "last ?tr = Closed None" by simp
  then show ?thesis using run r(2) wr f x by blast
qed

lemma fetchData_script_stop:
  assumes hs: "delivery 1 hs" "concat hs = [0x55]" and ds: "delivery 32 ds"
    and cs: "delivery 1 cs" "concat cs = [cnt]"
    and rss: "length rss < unat cnt" "\<forall>r\<in>set rss. delivery 9 r"
    and script: "pending m = answered (hs @ ds @ cs @ concat rss) @ rest"
    and writes: "\<forall>e\<in>set (take (3 + length rss) (writeErrors m)). e = None"
      "3 + length rss < length (writeErrors m)" "writeErrors m ! (3 + length rss) = Some s"
  shows "\<exists>m' tr. fetchData srt (recording mockPort) dev (m, [])
            = Some (Returns (map (decodeRecord \<circ> concat) rss, Some (ChannelError s)) (m', tr)) \<and>
          pending m' = rest \<and> tr \<noteq> [] \<and>
          last tr = Wrote (recordRequest (length rss)) (Some s) \<and>
          failures (butlast tr) = [] \<and>
          exchanges (butlast tr) = [([0xaa], [0x55]), ([0xa4], concat ds), ([0xa2], [cnt])]
               @ zip (map recordRequest [0..<length rss]) (map concat rss)"
proof -
  let ?rio = "recording mockPort"
  from take_split_None[OF writes(1)]
  have w3: "\<forall>e\<in>set (take 3 (writeErrors m)). e = None"
    and wn: "\<forall>e\<in>set (take (length rss) (drop 3 (writeErrors m))). e = None"
    by simp_all
  have sc: "pending m = answered (hs @ ds @ cs) @ (answered (concat rss) @ rest)"
    using script by (simp add: answered_def)
  from fetchData_script_prefix[OF hs ds cs sc w3, of srt dev]
  obtain buf m3 where p: "length buf = 128" "pending m3 = answered (concat rss) @ rest"
    "writeErrors m3 = drop 3 (writeErrors m)"
    "fetchData srt ?rio dev (m, []) =
       (case fetchRecords ?rio [0..<unat cnt] [] buf (m3, countTrace dev hs ds cs) of
          None \<Rightarrow> None
        | Some (Exits e w) \<Rightarrow> Some (Exits e w)
        | Some (Returns (items, Some e) w) \<Rightarrow> Some (Returns (items, Some e) w)
        | Some (Returns (items, None) w) \<Rightarrow>
            Some (Returns (mergeItems srt items [], None) (snd (portClose ?rio w))))"
    by blast
  have l: "length rss < length [0..<unat cnt]" using rss(1) by simp
  have wn': "\<forall>e\<in>set (take (length rss) (writeErrors m3)). e = None" using wn p(3) by simp
  have l3: "length rss < length (writeErrors m3)" using writes(2) p(3) by simp
  have n3: "writeErrors m3 ! length rss = Some s" using writes(2,3) p(3) by simp
  from fetchRecords_script_stop[OF l rss(2) p(2) wn' l3 n3 p(1), of "[]" "countTrace dev hs ds cs"]
  obtain m' evs where r:
    "fetchRecords ?rio [0..<unat cnt] [] buf (m3, countTrace dev hs ds cs)
       = Some (Returns (map (decodeRecord \<circ> concat) rss, Some (ChannelError s))
           (m', countTrace dev hs ds cs @ evs @
                  [Wrote (recordRequest ([0..<unat cnt] ! length rss)) (Some s)]))"
    "pending m' = rest" "failures evs = []"
    "\<forall>acc. foldl addEvent acc evs =
        acc @ zip (map recordRequest (take (length rss) [0..<unat cnt])) (map concat rss)"
    by auto
  have idx: "[0..<unat cnt] ! length rss = length rss" using rss(1) by simp
  have tk: "take (length rss) [0..<unat cnt] = [0..<length rss]"
    using rss(1) by (simp add: take_upt)
  let ?tr = "countTrace dev hs ds cs @ evs @ [Wrote (recordRequest (length rss)) (Some s)]"
  have run: "fetchData srt ?rio dev (m, [])
      = Some (Returns (map (decodeRecord \<circ> concat) rss, Some (ChannelError s)) (m', ?tr))"
    unfolding p(4) r(1) idx by simp
  have bl: "butlast ?tr = countTrace dev hs ds cs @ evs" by (simp add: butlast_append)
  have f: "failures (butlast ?tr) = []" unfolding bl using r(3) by simp
  have x: "exchanges (butlast ?tr) = [([0xaa], [0x55]), ([0xa4], concat ds), ([0xa2], [cnt])]
               @ zip (map recordRequest [0..<length rss]) (map concat rss)"
    unfolding bl using r(4) hs(2) cs(2) tk
    by (simp add: exchanges_append exchanges_countTrace)
  have "last ?tr = Wrote (recordRequest (length rss)) (Some s)" "?tr \<noteq> []" by simp_all
  then show ?thesis using run r(2) f x by blast
qed

lemma badClose_simps [simp]:
  "openPort badClose = openPort mockPort"
  "portWrite badClose = portWrite mockPort"
  "portRead badClose = portRead mockPort"
  "portClose badClose m = (Some ''input/output error'', m)"
  by (simp_all add: badClose_def)

lemma dead_open:
  "openPort deadPort ''/dev/ttyUSB0'' \<lparr>pending = goodScript, writeErrors = []\<rparr>
     = (Some ''no such file or directory'', \<lparr>pending = goodScript, writeErrors = []\<rparr>)"
  by (simp add: deadPort_def)

subsection \<open>Claim C2\<close>

text \<open>
  C2, as stated, fails.  On the scripted device the handshake is answered by
  the single byte 0x55 and the count by the single byte 2, and the write of the
  first record query fails: \<^verbatim>\<open>fetchData\<close> has issued one record query, not
  two, and returns that error with no record at all.
\<close>

theorem fetchData_stops_at_failed_request:
  "fetchData insertionSort (recording mockPort) ''/dev/ttyUSB0''
     (\<lparr>pending = goodScript, writeErrors = [None, None, None, Some ''input/output error'']\<rparr>, [])
   = Some (Returns ([], Some (ChannelError ''input/output error''))
       (\<lparr>pending = [([0, 103, 57, 64], None), ([6, 1, 8, 30, 16], None),
                     ([0, 92, 51, 58, 6, 2, 21, 5, 16], None)], writeErrors = []\<rparr>,
        stoppedTrace)) \<and>
   exchanges stoppedTrace =
     [([0xaa], [0x55]), ([0xa4], replicate 32 0x42), ([0xa2], [2]), ([0xa3, 1], [])] \<and>
   unat (2 :: byte) = 2"
  by (simp add: fetchData_def getData_def getDataLoop_more getDataLoop_done store_def
        goodScript_def stoppedTrace_def recordRequest_def upt_0_2 exchanges_def)

text \<open>
  C2, amended.  Take a scripted device whose reads deliver, in this order: the
  single byte 0x55, a description of at least 32 bytes, a single byte \<open>cnt\<close>
  and then \<open>N = unat cnt\<close> responses of at least nine bytes each, every one
  of these in any number of pieces; and on which the first \<open>3 + N\<close> writes
  succeed.  Then \<^verbatim>\<open>fetchData\<close> returns, with no error, \<^verbatim>\<open>mergeItems\<close> of
  the records decoded from the \<open>N\<close> responses and the empty slice; no
  operation has failed, the port is closed last, and the queries written are
  0xaa, 0xa4, 0xa2 and then the two-byte queries (0xa3, i) for i = 1..N in this
  order, answered by the bytes of the script.

  On any port at all, for any run of \<^verbatim>\<open>fetchData\<close> that ends: if no
  operation failed, the bytes read after the handshake query are the single
  byte 0x55 and the bytes read after the count query are a single byte
  \<open>cnt\<close>, the same holds of what was written, read and returned; and a run
  that returns no error is such a run, up to the error of \<^verbatim>\<open>Close\<close>, and
  what it returns is sorted latest first.  \<open>decodeRecord\<close> reads a response
  by position: header byte 0, systolic byte 1 + 25, diastolic byte 2 + 25,
  pulse byte 3, month, day, hour and minute bytes 4 to 7, year byte 8 + 2000.
  On a responsive port every run ends.
\<close>

theorem fetchData_decodes_and_sorts:
  "(delivery 1 hs \<and> concat hs = [0x55] \<and> delivery 32 ds \<and> delivery 1 cs \<and> concat cs = [cnt] \<and>
    length rss = unat cnt \<and> (\<forall>r\<in>set rss. delivery 9 r) \<and>
    pending m = answered (hs @ ds @ cs @ concat rss) @ rest \<and>
    (\<forall>e\<in>set (take (3 + unat cnt) (writeErrors m)). e = None)
    \<longrightarrow> (\<exists>m' tr. fetchData sortSlice (recording mockPort) dev (m, [])
              = Some (Returns (mergeItems sortSlice (map (decodeRecord \<circ> concat) rss) [], None)
                       (m', tr)) \<and>
            pending m' = rest \<and> failures tr = [] \<and> last tr = Closed None \<and>
            map fst (exchanges tr) =
              [0xaa] # [0xa4] # [0xa2] # map (\<lambda>i. [0xa3, of_nat i]) [1..<Suc (unat cnt)] \<and>
            map snd (exchanges tr) = [0x55] # concat ds # [cnt] # map concat rss)) \<and>
   (\<forall>r. fetchData sortSlice (recording io) dev (w0, []) = Some r \<longrightarrow>
      (failures (traceOf r) = [] \<and>
       map snd (exchanges (traceOf r)) = [0x55] # desc # [cnt] # resps \<longrightarrow>
         resultOf r = Inr (mergeItems sortSlice (map decodeRecord resps) [], None) \<and>
         length resps = unat cnt \<and> (\<forall>resp\<in>set resps. 9 \<le> length resp) \<and>
         map fst (exchanges (traceOf r)) =
           [0xaa] # [0xa4] # [0xa2] # map (\<lambda>i. [0xa3, of_nat i]) [1..<Suc (unat cnt)] \<and>
         last (traceOf r) = Closed None) \<and>
      (\<forall>items. resultOf r = Inr (items, None) \<longrightarrow>
         sorted_wrt isLater items \<and> failures (butlast (traceOf r)) = [] \<and>
         (\<exists>c. last (traceOf r) = Closed c) \<and>
         (\<exists>desc cnt resps.
            map snd (exchanges (traceOf r)) = [0x55] # desc # [cnt] # resps))) \<and>
   (\<forall>resp. decodeRecord resp =
      \<lparr>Header = uint (resp ! 0), Systolic = uint (resp ! 1) + 25,
       Diastolic = uint (resp ! 2) + 25, Pulse = uint (resp ! 3),
       Month = uint (resp ! 4), Day = uint (resp ! 5), Hour = uint (resp ! 6),
       Minute = uint (resp ! 7), Year = uint (resp ! 8) + 2000\<rparr>) \<and>
   (responsive io \<longrightarrow> (\<exists>r. fetchData sortSlice (recording io) dev (w0, []) = Some r))"
proof -
  have scripted: "\<exists>m' tr. fetchData sortSlice (recording mockPort) dev (m, [])
              = Some (Returns (mergeItems sortSlice (map (decodeRecord \<circ> concat) rss) [], None)
                       (m', tr)) \<and>
            pending m' = rest \<and> failures tr = [] \<and> last tr = Closed None \<and>
            map fst (exchanges tr) =
              [0xaa] # [0xa4] # [0xa2] # map (\<lambda>i. [0xa3, of_nat i]) [1..<Suc (unat cnt)] \<and>
            map snd (exchanges tr) = [0x55] # concat ds # [cnt] # map concat rss"
    if h: "delivery 1 hs \<and> concat hs = [0x55] \<and> delivery 32 ds \<and> delivery 1 cs \<and>
        concat cs = [cnt] \<and> length rss = unat cnt \<and> (\<forall>r\<in>set rss. delivery 9 r) \<and>
        pending m = answered (hs @ ds @ cs @ concat rss) @ rest \<and>
        (\<forall>e\<in>set (take (3 + unat cnt) (writeErrors m)). e = None)"
  proof -
    from h have a: "delivery 1 hs" "concat hs = [0x55]" "delivery 32 ds" "delivery 1 cs"
      "concat cs = [cnt]" "length rss = unat cnt" "\<forall>r\<in>set rss. delivery 9 r"
      "pending m = answered (hs @ ds @ cs @ concat rss) @ rest"
      "\<forall>e\<in>set (take (3 + unat cnt) (writeErrors m)). e = None"
      by blast+
    from fetchData_script[OF a, of sortSlice dev] obtain m' tr where r:
      "fetchData sortSlice (recording mockPort) dev (m, [])
         = Some (Returns (mergeItems sortSlice (map (decodeRecord \<circ> concat) rss) [], None) (m', tr))"
      "pending m' = rest" "failures tr = []" "last tr = Closed None"
      "exchanges tr = [([0xaa], [0x55]), ([0xa4], concat ds), ([0xa2], [cnt])]
                           @ zip (map recordRequest [0..<unat cnt]) (map concat rss)"
      by blast
    have f: "map fst (exchanges tr) =
              [0xaa] # [0xa4] # [0xa2] # map (\<lambda>i. [0xa3, of_nat i]) [1..<Suc (unat cnt)]"
      unfolding r(5) using a(6) by (simp add: map_fst_zip_len recordRequests del: upt_Suc)
    have s: "map snd (exchanges tr) = [0x55] # concat ds # [cnt] # map concat rss"
      unfolding r(5) using a(6) by (simp add: map_snd_zip_len)
    show ?thesis
      by (intro exI[of _ m'] exI[of _ tr] conjI)
         (rule r(1), rule r(2), rule r(3), rule r(4), rule f, rule s)
  qed
  have general: "(failures (traceOf r) = [] \<and>
       map snd (exchanges (traceOf r)) = [0x55] # desc # [cnt] # resps \<longrightarrow>
         resultOf r = Inr (mergeItems sortSlice (map decodeRecord resps) [], None) \<and>
         length resps = unat cnt \<and> (\<forall>resp\<in>set resps. 9 \<le> length resp) \<and>
         map fst (exchanges (traceOf r)) =
           [0xaa] # [0xa4] # [0xa2] # map (\<lambda>i. [0xa3, of_nat i]) [1..<Suc (unat cnt)] \<and>
         last (traceOf r) = Closed None) \<and>
      (\<forall>items. resultOf r = Inr (items, None) \<longrightarrow>
         sorted_wrt isLater items \<and> failures (butlast (traceOf r)) = [] \<and>
         (\<exists>c. last (traceOf r) = Closed c) \<and>
         (\<exists>desc cnt resps.
            map snd (exchanges (traceOf r)) = [0x55] # desc # [cnt] # resps))"
    if run: "fetchData sortSlice (recording io) dev (w0, []) = Some r" for r
  proof -
    have fr: "fetchRun sortSlice dev (traceOf r) (resultOf r)" by (rule fetchData_run[OF run])
    have a: "resultOf r = Inr (mergeItems sortSlice (map decodeRecord resps) [], None) \<and>
         length resps = unat cnt \<and> (\<forall>resp\<in>set resps. 9 \<le> length resp) \<and>
         map fst (exchanges (traceOf r)) =
           [0xaa] # [0xa4] # [0xa2] # map (\<lambda>i. [0xa3, of_nat i]) [1..<Suc (unat cnt)] \<and>
         last (traceOf r) = Closed None"
      if "failures (traceOf r) = []"
        "map snd (exchanges (traceOf r)) = [0x55] # desc # [cnt] # resps"
      using fetchRun_clean[OF fr that] .
    have b: "sorted_wrt isLater items \<and> failures (butlast (traceOf r)) = [] \<and>
         (\<exists>c. last (traceOf r) = Closed c) \<and>
         (\<exists>desc cnt resps.
            map snd (exchanges (traceOf r)) = [0x55] # desc # [cnt] # resps)"
      if "resultOf r = Inr (items, None)" for items
    proof -
      from fr that have "fetchRun sortSlice dev (traceOf r) (Inr (items, None))" by simp
      then show ?thesis by (rule fetchRun_success_clean)
    qed
    show ?thesis
      apply (intro conjI)
       apply (rule impI, erule conjE, erule (1) a)
      apply (intro allI impI, erule b)
      done
  qed
  have decode: "\<forall>resp. decodeRecord resp =
      \<lparr>Header = uint (resp ! 0), Systolic = uint (resp ! 1) + 25,
       Diastolic = uint (resp ! 2) + 25, Pulse = uint (resp ! 3),
       Month = uint (resp ! 4), Day = uint (resp ! 5), Hour = uint (resp ! 6),
       Minute = uint (resp ! 7), Year = uint (resp ! 8) + 2000\<rparr>"
    by (simp add: decodeRecord_def)
  have ends: "\<exists>r. fetchData sortSlice (recording io) dev (w0, []) = Some r" if "responsive io"
    using fetchData_terminates[OF responsive_recording[OF that]] .
  show ?thesis
    apply (intro conjI)
       apply (rule impI, erule scripted)
      apply (intro allI impI, erule general)
     apply (rule decode)
    apply (rule impI, erule ends)
    done
qed

theorem fetchData_decodes_and_sorts_witness:
  "fetchData insertionSort (recording mockPort) ''/dev/ttyUSB0''
     (\<lparr>pending = goodScript, writeErrors = []\<rparr>, [])
   = Some (Returns ([sampleC, sampleA], None) (\<lparr>pending = [], writeErrors = []\<rparr>, goodTrace)) \<and>
   failures goodTrace = [] \<and>
   map snd (exchanges goodTrace) =
     [[0x55], replicate 32 0x42, [2],
      [0, 103, 57, 64, 6, 1, 8, 30, 16], [0, 92, 51, 58, 6, 2, 21, 5, 16]] \<and>
   map fst (exchanges goodTrace) =
     [0xaa] # [0xa4] # [0xa2] # map (\<lambda>i. [0xa3, of_nat i]) [1..<Suc (unat (2 :: byte))] \<and>
   map decodeRecord [[0, 103, 57, 64, 6, 1, 8, 30, 16], [0, 92, 51, 58, 6, 2, 21, 5, 16]]
     = [sampleA, sampleC] \<and>
   mergeItems insertionSort [sampleA, sampleC] [] = [sampleC, sampleA] \<and>
   last goodTrace = Closed None \<and>
   sorted_wrt isLater [sampleC, sampleA] \<and>
   responsive steadyPort \<and>
   (\<exists>r. fetchData insertionSort (recording steadyPort) ''/dev/ttyUSB0'' ((), []) = Some r)"
proof -
  let ?m = "\<lparr>pending = goodScript, writeErrors = []\<rparr>"
  let ?r = "Returns ([sampleC, sampleA], None :: err option)
              (\<lparr>pending = [], writeErrors = []\<rparr>, goodTrace)"
  let ?resps = "[[0, 103, 57, 64, 6, 1, 8, 30, 16], [0, 92, 51, 58, 6, 2, 21, 5, 16]] :: byte list list"
  let ?rss = "[[[0, 103, 57, 64], [6, 1, 8, 30, 16]], [[0, 92, 51, 58, 6, 2, 21, 5, 16]]]
                :: byte list list list"
  note inst = fetchData_decodes_and_sorts[where hs = "[[], [0x55]]" and ds = "[replicate 32 0x42]"
      and cs = "[[2]]" and cnt = 2 and rss = ?rss and m = ?m and rest = "[]"
      and sortSlice = insertionSort and dev = "''/dev/ttyUSB0''" and io = mockPort
      and ?w0.0 = ?m and desc = "replicate 32 0x42" and resps = ?resps]
  note inst2 = fetchData_decodes_and_sorts[where io = steadyPort and sortSlice = insertionSort
      and dev = "''/dev/ttyUSB0''" and ?w0.0 = "()"]
  have d: "map decodeRecord ?resps = [sampleA, sampleC]"
    by (simp add: decodeRecord_def sampleA_def sampleC_def)
  have pre: "delivery 1 [[], [0x55]] \<and> concat [[], [0x55 :: byte]] = [0x55] \<and>
      delivery 32 [replicate 32 0x42] \<and> delivery 1 [[2]] \<and> concat [[2 :: byte]] = [2] \<and>
      length ?rss = unat (2 :: byte) \<and> (\<forall>r\<in>set ?rss. delivery 9 r) \<and>
      pending ?m = answered ([[], [0x55]] @ [replicate 32 0x42] @ [[2]] @ concat ?rss) @ [] \<and>
      (\<forall>e\<in>set (take (3 + unat (2 :: byte)) (writeErrors ?m)). e = None)"
    by (simp add: delivery_def answered_def goodScript_def)
  from inst[THEN conjunct1, THEN mp, OF pre] obtain m' tr where s:
    "fetchData insertionSort (recording mockPort) ''/dev/ttyUSB0'' (?m, [])
       = Some (Returns (mergeItems insertionSort (map (decodeRecord \<circ> concat) ?rss) [], None) (m', tr))"
    "failures tr = []" "last tr = Closed None"
    "map fst (exchanges tr) =
       [0xaa] # [0xa4] # [0xa2] # map (\<lambda>i. [0xa3, of_nat i]) [1..<Suc (unat (2 :: byte))]"
    "map snd (exchanges tr) = [0x55] # concat [replicate 32 0x42] # [2] # map concat ?rss"
    by (elim exE conjE) (rule that)
  from s(1) good_run have tr: "tr = goodTrace" by simp
  have f: "failures goodTrace = []" using s(2) tr by simp
  have lst: "last goodTrace = Closed None" using s(3) tr by simp
  have reqs: "map fst (exchanges goodTrace) =
     [0xaa] # [0xa4] # [0xa2] # map (\<lambda>i. [0xa3, of_nat i]) [1..<Suc (unat (2 :: byte))]"
    using s(4) tr by simp
  have answers: "map snd (exchanges goodTrace) = [[0x55], replicate 32 0x42, [2],
      [0, 103, 57, 64, 6, 1, 8, 30, 16], [0, 92, 51, 58, 6, 2, 21, 5, 16]]"
    using s(5) tr by simp
  have pre2: "failures (traceOf ?r) = [] \<and>
      map snd (exchanges (traceOf ?r)) = [0x55] # replicate 32 0x42 # [2] # ?resps"
    using f answers by simp
  from inst[THEN conjunct2, THEN conjunct1, rule_format, OF good_run, THEN conjunct1, THEN mp, OF pre2]
  have "resultOf ?r = Inr (mergeItems insertionSort (map decodeRecord ?resps) [], None)"
    by (rule conjunct1)
  then have mg: "mergeItems insertionSort [sampleA, sampleC] [] = [sampleC, sampleA]"
    using d by simp
  note sorted = inst[THEN conjunct2, THEN conjunct1, rule_format, OF good_run, THEN conjunct2,
      rule_format]
  have srt: "sorted_wrt isLater [sampleC, sampleA]"
    using sorted[of "[sampleC, sampleA]"] by simp
  have tm: "responsive steadyPort \<longrightarrow>
      (\<exists>r. fetchData insertionSort (recording steadyPort) ''/dev/ttyUSB0'' ((), []) = Some r)"
    by (rule inst2[THEN conjunct2, THEN conjunct2, THEN conjunct2])
  have rs: "responsive steadyPort" by (auto simp: responsive_def steadyPort_def)
  with tm have ex: "\<exists>r. fetchData insertionSort (recording steadyPort) ''/dev/ttyUSB0'' ((), []) = Some r"
    by simp
  show ?thesis
    by (intro conjI) (rule good_run, rule f, rule answers, rule reqs, rule d, rule mg,
        rule lst, rule srt, rule rs, rule ex)
qed

subsection \<open>Claim C7\<close>

text \<open>
  C7, as stated, fails.  On the scripted device the write of the second
  record query fails; \<^verbatim>\<open>fetchData\<close> returns the error together with the
  record decoded before the failure (\<^verbatim>\<open>return items, err\<close>), not with an
  empty collection.
\<close>

theorem fetchData_returns_partial_records:
  "fetchData insertionSort mockPort ''/dev/ttyUSB0''
     \<lparr>pending = goodScript,
      writeErrors = [None, None, None, None, Some ''input/output error'']\<rparr>
   = Some (Returns ([sampleA], Some (ChannelError ''input/output error''))
       \<lparr>pending = [([0, 92, 51, 58, 6, 2, 21, 5, 16], None)], writeErrors = []\<rparr>)"
  by (simp add: fetchData_def getData_def getDataLoop_more getDataLoop_done store_def
        goodScript_def recordRequest_def decodeRecord_def sampleA_def nth_append upt_0_2)

text \<open>
  The error of \<^verbatim>\<open>Close\<close> is the one error of the port that the function
  never looks at: the same run on a port whose \<^verbatim>\<open>Close\<close> fails returns the
  two records and a nil error.
\<close>

lemma close_error_dropped:
  "fetchData insertionSort (recording badClose) ''/dev/ttyUSB0''
     (\<lparr>pending = goodScript, writeErrors = []\<rparr>, [])
   = Some (Returns ([sampleC, sampleA], None)
       (\<lparr>pending = [], writeErrors = []\<rparr>,
        butlast goodTrace @ [Closed (Some ''input/output error'')]))"
  by (simp add: fetchData_def getData_def getDataLoop_more getDataLoop_done store_def
        goodScript_def goodTrace_def recordRequest_def decodeRecord_def
        mergeItems_def insertionSort_def insertIfMissing_def isLater_def
        sampleA_def sampleC_def nth_append upt_0_2)

text \<open>
  C7, amended.  On a responsive port every run of \<^verbatim>\<open>fetchData\<close> ends.  If
  the port cannot be opened, or the write of the handshake query fails,
  \<^verbatim>\<open>fetchData\<close> returns that error and no item.  On a scripted device that
  answers the handshake, the description, the count \<open>cnt\<close> and fewer than
  \<open>unat cnt\<close> record queries, and on which the write of the next record
  query fails, \<^verbatim>\<open>fetchData\<close> returns that error together with the records
  decoded so far, and the failed write is its last operation.

  On any port, for any run that ends, the last operation decides the result
  and no operation before it has failed.  If the process is ended (by
  \<^verbatim>\<open>log.Fatal\<close> in \<^verbatim>\<open>getData\<close>), the last operation is a failed read
  and its error is the one reported.  If \<^verbatim>\<open>fetchData\<close> returns no error,
  the last operation is \<^verbatim>\<open>Close\<close>.  If it returns an error, then either no
  item is returned and the error is the handshake error, after \<^verbatim>\<open>Close\<close>,
  or the no-measurement error, no operation having failed; or the last
  operation is a failed open or write, its error is the one returned, and the
  items returned with it are the records decoded from the responses to the
  record queries answered before the failure.
\<close>

theorem fetchData_failure_ends_fetch:
  "(responsive io \<longrightarrow> (\<exists>r. fetchData sortSlice (recording io) dev (w0, []) = Some r)) \<and>
   (\<forall>s w1. openPort io dev w0 = (Some s, w1) \<longrightarrow>
      fetchData sortSlice io dev w0 = Some (Returns ([], Some (ChannelError s)) w1)) \<and>
   (\<forall>s w1 w2. openPort io dev w0 = (None, w1) \<and> portWrite io [0xaa] w1 = (Some s, w2) \<longrightarrow>
      fetchData sortSlice io dev w0 = Some (Returns ([], Some (ChannelError s)) w2)) \<and>
   (delivery 1 hs \<and> concat hs = [0x55] \<and> delivery 32 ds \<and> delivery 1 cs \<and> concat cs = [cnt] \<and>
    length rss < unat cnt \<and> (\<forall>r\<in>set rss. delivery 9 r) \<and>
    pending m = answered (hs @ ds @ cs @ concat rss) @ rest \<and>
    (\<forall>e\<in>set (take (3 + length rss) (writeErrors m)). e = None) \<and>
    3 + length rss < length (writeErrors m) \<and> writeErrors m ! (3 + length rss) = Some s
    \<longrightarrow> (\<exists>m' tr. fetchData sortSlice (recording mockPort) dev (m, [])
              = Some (Returns (map (decodeRecord \<circ> concat) rss, Some (ChannelError s)) (m', tr)) \<and>
            tr \<noteq> [] \<and> last tr = Wrote [0xa3, of_nat (length rss + 1)] (Some s) \<and>
            failures (butlast tr) = [])) \<and>
   (\<forall>r. fetchData sortSlice (recording io) dev (w0, []) = Some r \<longrightarrow>
      (case resultOf r of
         Inl e \<Rightarrow>
           (\<exists>c s. e = ChannelError s \<and> traceOf r \<noteq> [] \<and> last (traceOf r) = Read c (Some s) \<and>
                  failures (butlast (traceOf r)) = [])
       | Inr (items, None) \<Rightarrow>
           traceOf r \<noteq> [] \<and> failures (butlast (traceOf r)) = [] \<and>
           (\<exists>c. last (traceOf r) = Closed c)
       | Inr (items, Some e) \<Rightarrow>
           (items = [] \<and> e = Errorf ''handshake failed'' \<and> traceOf r \<noteq> [] \<and>
              failures (butlast (traceOf r)) = [] \<and> (\<exists>c. last (traceOf r) = Closed c))
           \<or> (items = [] \<and> e = Errorf ''no measurement found'' \<and> failures (traceOf r) = [])
           \<or> (\<exists>s. e = ChannelError s \<and> traceOf r \<noteq> [] \<and>
                  failures (butlast (traceOf r)) = [] \<and>
                  (last (traceOf r) = Opened dev (Some s) \<or>
                   (\<exists>q. last (traceOf r) = Wrote q (Some s))) \<and>
                  items = map (decodeRecord \<circ> snd) (drop 3 (butlast (exchanges (traceOf r)))))))"
proof -
  have ends: "\<exists>r. fetchData sortSlice (recording io) dev (w0, []) = Some r" if "responsive io"
    using fetchData_terminates[OF responsive_recording[OF that]] .
  have opened: "fetchData sortSlice io dev w0 = Some (Returns ([], Some (ChannelError s)) w1)"
    if "openPort io dev w0 = (Some s, w1)" for s w1
    using that by (simp add: fetchData_def)
  have greeted: "fetchData sortSlice io dev w0 = Some (Returns ([], Some (ChannelError s)) w2)"
    if "openPort io dev w0 = (None, w1) \<and> portWrite io [0xaa] w1 = (Some s, w2)" for s w1 w2
    using that by (simp add: fetchData_def)
  have scripted: "\<exists>m' tr. fetchData sortSlice (recording mockPort) dev (m, [])
              = Some (Returns (map (decodeRecord \<circ> concat) rss, Some (ChannelError s)) (m', tr)) \<and>
            tr \<noteq> [] \<and> last tr = Wrote [0xa3, of_nat (length rss + 1)] (Some s) \<and>
            failures (butlast tr) = []"
    if h: "delivery 1 hs \<and> concat hs = [0x55] \<and> delivery 32 ds \<and> delivery 1 cs \<and>
        concat cs = [cnt] \<and> length rss < unat cnt \<and> (\<forall>r\<in>set rss. delivery 9 r) \<and>
        pending m = answered (hs @ ds @ cs @ concat rss) @ rest \<and>
        (\<forall>e\<in>set (take (3 + length rss) (writeErrors m)). e = None) \<and>
        3 + length rss < length (writeErrors m) \<and> writeErrors m ! (3 + length rss) = Some s"
  proof -
    from h have a: "delivery 1 hs" "concat hs = [0x55]" "delivery 32 ds" "delivery 1 cs"
      "concat cs = [cnt]" "length rss < unat cnt" "\<forall>r\<in>set rss. delivery 9 r"
      "pending m = answered (hs @ ds @ cs @ concat rss) @ rest"
      "\<forall>e\<in>set (take (3 + length rss) (writeErrors m)). e = None"
      "3 + length rss < length (writeErrors m)" "writeErrors m ! (3 + length rss) = Some s"
      by blast+
    from fetchData_script_stop[OF a, of sortSlice dev] obtain m' tr where r:
      "fetchData sortSlice (recording mockPort) dev (m, [])
         = Some (Returns (map (decodeRecord \<circ> concat) rss, Some (ChannelError s)) (m', tr))"
      "tr \<noteq> []" "last tr = Wrote (recordRequest (length rss)) (Some s)"
      "failures (butlast tr) = []"
      by (elim exE conjE) (rule that)
    have l: "last tr = Wrote [0xa3, of_nat (length rss + 1)] (Some s)"
      using r(3) by (simp only: recordRequest_def)
    show ?thesis
      by (intro exI[of _ m'] exI[of _ tr] conjI) (rule r(1), rule r(2), rule l, rule r(4))
  qed
  have cases: "case resultOf r of
         Inl e \<Rightarrow>
           (\<exists>c s. e = ChannelError s \<and> traceOf r \<noteq> [] \<and> last (traceOf r) = Read c (Some s) \<and>
                  failures (butlast (traceOf r)) = [])
       | Inr (items, None) \<Rightarrow>
           traceOf r \<noteq> [] \<and> failures (butlast (traceOf r)) = [] \<and>
           (\<exists>c. last (traceOf r) = Closed c)
       | Inr (items, Some e) \<Rightarrow>
           (items = [] \<and> e = Errorf ''handshake failed'' \<and> traceOf r \<noteq> [] \<and>
              failures (butlast (traceOf r)) = [] \<and> (\<exists>c. last (traceOf r) = Closed c))
           \<or> (items = [] \<and> e = Errorf ''no measurement found'' \<and> failures (traceOf r) = [])
           \<or> (\<exists>s. e = ChannelError s \<and> traceOf r \<noteq> [] \<and>
                  failures (butlast (traceOf r)) = [] \<and>
                  (last (traceOf r) = Opened dev (Some s) \<or>
                   (\<exists>q. last (traceOf r) = Wrote q (Some s))) \<and>
                  items = map (decodeRecord \<circ> snd) (drop 3 (butlast (exchanges (traceOf r)))))"
    if run: "fetchData sortSlice (recording io) dev (w0, []) = Some r" for r
  proof -
    define tr where "tr = traceOf r"
    define out where "out = resultOf r"
    have fr: "fetchRun sortSlice dev tr out"
      unfolding tr_def out_def by (rule fetchData_run[OF run])
    have "case out of
         Inl e \<Rightarrow>
           (\<exists>c s. e = ChannelError s \<and> tr \<noteq> [] \<and> last tr = Read c (Some s) \<and>
                  failures (butlast tr) = [])
       | Inr (items, None) \<Rightarrow>
           tr \<noteq> [] \<and> failures (butlast tr) = [] \<and> (\<exists>c. last tr = Closed c)
       | Inr (items, Some e) \<Rightarrow>
           (items = [] \<and> e = Errorf ''handshake failed'' \<and> tr \<noteq> [] \<and>
              failures (butlast tr) = [] \<and> (\<exists>c. last tr = Closed c))
           \<or> (items = [] \<and> e = Errorf ''no measurement found'' \<and> failures tr = [])
           \<or> (\<exists>s. e = ChannelError s \<and> tr \<noteq> [] \<and> failures (butlast tr) = [] \<and>
                  (last tr = Opened dev (Some s) \<or> (\<exists>q. last tr = Wrote q (Some s))) \<and>
                  items = map (decodeRecord \<circ> snd) (drop 3 (butlast (exchanges tr))))"
      using fr
    proof (cases rule: fetchRun.cases)
      case (open_failed s)
      then show ?thesis by (simp add: exchanges_def)
    next
      case (hs_write_failed s)
      then show ?thesis by (simp add: exchanges_def)
    next
      case (hs_read_failed hs c s)
      then show ?thesis by (simp add: butlast_append)
    next
      case (hs_mismatch hs c)
      then show ?thesis by (simp add: butlast_append)
    next
      case (desc_write_failed hs s)
      then show ?thesis
        by (simp add: butlast_append exchanges_append exchanges_hsTrace)
    next
      case (desc_read_failed hs ds c s)
      then show ?thesis by (simp add: butlast_append)
    next
      case (count_write_failed hs ds s)
      then show ?thesis
        by (simp add: butlast_append exchanges_append exchanges_descTrace)
    next
      case (count_read_failed hs ds cs c s)
      then show ?thesis by (simp add: butlast_append)
    next
      case (no_measurement hs ds cs)
      then show ?thesis by simp
    next
      case (records_stopped hs ds cs cnt evs items e)
      from recordsRun_outcome[OF records_stopped(6)] obtain s q resps where r:
        "e = ChannelError s" "evs \<noteq> []" "last evs = Wrote q (Some s)"
        "failures (butlast evs) = []" "items = map decodeRecord resps"
        "\<forall>acc. \<exists>reqs. length reqs = length resps \<and>
                   foldl addEvent acc evs = acc @ zip reqs resps @ [(q, [])]"
        by auto
      from r(6) obtain reqs where q: "length reqs = length resps"
        "foldl addEvent (exchanges (countTrace dev hs ds cs)) evs =
           exchanges (countTrace dev hs ds cs) @ zip reqs resps @ [(q, [])]"
        by blast
      have "drop 3 (butlast (exchanges tr)) = zip reqs resps"
        unfolding records_stopped(1) exchanges_append q(2)
        by (simp add: exchanges_countTrace butlast_append)
      then have "items = map (decodeRecord \<circ> snd) (drop 3 (butlast (exchanges tr)))"
        using r(5) q(1) by (simp add: map_snd_zip_same)
      then show ?thesis
        using records_stopped(1,2) r(1-4) by (simp add: butlast_append)
    next
      case (records_exit hs ds cs cnt evs e)
      from recordsRun_outcome[OF records_exit(6)] obtain c s where
        "e = ChannelError s" "evs \<noteq> []" "last evs = Read c (Some s)" "failures (butlast evs) = []"
        by auto
      then show ?thesis using records_exit(1,2) by (simp add: butlast_append)
    next
      case (success hs ds cs cnt evs items c)
      from recordsRun_outcome[OF success(6)] have "failures evs = []" by auto
      then show ?thesis using success(1,2) by (simp add: butlast_append)
    qed
    then show ?thesis unfolding tr_def out_def .
  qed
  show ?thesis
    apply (intro conjI)
        apply (rule impI, erule ends)
       apply (intro allI impI, erule opened)
      apply (intro allI impI, erule greeted)
     apply (rule impI, erule scripted)
    apply (intro allI impI, erule cases)
    done
qed

theorem fetchData_failure_ends_fetch_witness:
  "responsive steadyPort \<and>
   (\<exists>r. fetchData insertionSort (recording steadyPort) ''/dev/ttyUSB0'' ((), []) = Some r) \<and>
   fetchData insertionSort deadPort ''/dev/ttyUSB0'' \<lparr>pending = goodScript, writeErrors = []\<rparr>
     = Some (Returns ([], Some (ChannelError ''no such file or directory''))
         \<lparr>pending = goodScript, writeErrors = []\<rparr>) \<and>
   fetchData insertionSort mockPort ''/dev/ttyUSB0''
       \<lparr>pending = goodScript, writeErrors = [Some ''input/output error'']\<rparr>
     = Some (Returns ([], Some (ChannelError ''input/output error''))
         \<lparr>pending = goodScript, writeErrors = []\<rparr>) \<and>
   fetchData insertionSort (recording mockPort) ''/dev/ttyUSB0''
     (\<lparr>pending = goodScript,
       writeErrors = [None, None, None, None, Some ''input/output error'']\<rparr>, [])
   = Some (Returns ([sampleA], Some (ChannelError ''input/output error''))
       (\<lparr>pending = [([0, 92, 51, 58, 6, 2, 21, 5, 16], None)], writeErrors = []\<rparr>,
        failTrace)) \<and>
   failures (butlast failTrace) = [] \<and>
   last failTrace = Wrote [0xa3, 2] (Some ''input/output error'') \<and>
   [sampleA] = map (decodeRecord \<circ> snd) (drop 3 (butlast (exchanges failTrace)))"
proof -
  let ?m = "\<lparr>pending = goodScript,
             writeErrors = [None, None, None, None, Some ''input/output error'']\<rparr>"
  let ?mq = "\<lparr>pending = goodScript, writeErrors = []\<rparr>"
  let ?mw = "\<lparr>pending = goodScript, writeErrors = [Some ''input/output error'']\<rparr>"
  let ?rss = "[[[0, 103, 57, 64], [6, 1, 8, 30, 16]]] :: byte list list list"
  note steady = fetchData_failure_ends_fetch[where io = steadyPort and sortSlice = insertionSort
      and dev = "''/dev/ttyUSB0''" and ?w0.0 = "()"]
  note dead = fetchData_failure_ends_fetch[where io = deadPort and sortSlice = insertionSort
      and dev = "''/dev/ttyUSB0''" and ?w0.0 = ?mq]
  note mute = fetchData_failure_ends_fetch[where io = mockPort and sortSlice = insertionSort
      and dev = "''/dev/ttyUSB0''" and ?w0.0 = ?mw]
  note inst = fetchData_failure_ends_fetch[where hs = "[[], [0x55]]" and ds = "[replicate 32 0x42]"
      and cs = "[[2]]" and cnt = 2 and rss = ?rss and m = ?m
      and rest = "[([0, 92, 51, 58, 6, 2, 21, 5, 16], None)]" and s = "''input/output error''"
      and sortSlice = insertionSort and dev = "''/dev/ttyUSB0''" and io = mockPort
      and ?w0.0 = ?m]
  have rs: "responsive steadyPort" by (auto simp: responsive_def steadyPort_def)
  from steady[THEN conjunct1] rs
  have ex: "\<exists>r. fetchData insertionSort (recording steadyPort) ''/dev/ttyUSB0'' ((), []) = Some r"
    by simp
  have op: "fetchData insertionSort deadPort ''/dev/ttyUSB0'' ?mq
     = Some (Returns ([], Some (ChannelError ''no such file or directory'')) ?mq)"
    using dead[THEN conjunct2, THEN conjunct1, rule_format, OF dead_open] .
  have w1: "openPort mockPort ''/dev/ttyUSB0'' ?mw = (None, ?mw) \<and>
            portWrite mockPort [0xaa] ?mw = (Some ''input/output error'', ?mq)"
    by simp
  have gr: "fetchData insertionSort mockPort ''/dev/ttyUSB0'' ?mw
     = Some (Returns ([], Some (ChannelError ''input/output error'')) ?mq)"
    using mute[THEN conjunct2, THEN conjunct2, THEN conjunct1, rule_format, OF w1] .
  have pre: "delivery 1 [[], [0x55]] \<and> concat [[], [0x55 :: byte]] = [0x55] \<and>
      delivery 32 [replicate 32 0x42] \<and> delivery 1 [[2]] \<and> concat [[2 :: byte]] = [2] \<and>
      length ?rss < unat (2 :: byte) \<and> (\<forall>r\<in>set ?rss. delivery 9 r) \<and>
      pending ?m = answered ([[], [0x55]] @ [replicate 32 0x42] @ [[2]] @ concat ?rss)
                     @ [([0, 92, 51, 58, 6, 2, 21, 5, 16], None)] \<and>
      (\<forall>e\<in>set (take (3 + length ?rss) (writeErrors ?m)). e = None) \<and>
      3 + length ?rss < length (writeErrors ?m) \<and>
      writeErrors ?m ! (3 + length ?rss) = Some ''input/output error''"
    by (simp add: delivery_def answered_def goodScript_def)
  from inst[THEN conjunct2, THEN conjunct2, THEN conjunct2, THEN conjunct1, THEN mp, OF pre]
  obtain m' tr where s:
    "fetchData insertionSort (recording mockPort) ''/dev/ttyUSB0'' (?m, [])
       = Some (Returns (map (decodeRecord \<circ> concat) ?rss, Some (ChannelError ''input/output error''))
           (m', tr))"
    "last tr = Wrote [0xa3, of_nat (length ?rss + 1)] (Some ''input/output error'')"
    "failures (butlast tr) = []"
    by (elim exE conjE) (rule that)
  from s(1) failing_run have tr: "tr = failTrace" by simp
  have f: "failures (butlast failTrace) = []" using s(3) tr by simp
  have l: "last failTrace = Wrote [0xa3, 2] (Some ''input/output error'')"
    using s(2) tr by simp
  from inst[THEN conjunct2, THEN conjunct2, THEN conjunct2, THEN conjunct2, rule_format,
      OF failing_run] l
  have it: "[sampleA] = map (decodeRecord \<circ> snd) (drop 3 (butlast (exchanges failTrace)))"
    by auto
  show ?thesis
    by (intro conjI) (rule rs, rule ex, rule op, rule gr, rule failing_run, rule f, rule l, rule it)
qed

subsection \<open>Claim C10\<close>

text \<open>
  C10.  On every port, when \<^verbatim>\<open>getData\<close> returns, its error is nil and the
  count it returns is at least the size asked for.  And when \<^verbatim>\<open>fetchData\<close>
  returns the no-measurement error, the last operation on the port is a
  successful read that delivered at least two bytes, the only bytes read in
  the count phase: one byte was needed, and no read that delivers nothing can
  lead there.
\<close>

theorem getData_never_short:
  "(getData io buf sizeN w = Some (Returns ((n, e), buf') w') \<longrightarrow> e = None \<and> sizeN \<le> n) \<and>
   (fetchData sortSlice (recording io) dev (w0, []) =
      Some (Returns (items, Some (Errorf ''no measurement found'')) (wEnd, tr)) \<longrightarrow>
    (\<exists>tr0 chunk. tr = tr0 @ [Read chunk None] \<and> 2 \<le> length chunk \<and>
       last (exchanges tr) = ([0xa2], chunk)))"
proof -
  have a: "e = None \<and> sizeN \<le> n"
    if "getData io buf sizeN w = Some (Returns ((n, e), buf') w')"
    using that by (rule getData_returns)
  have b: "\<exists>tr0 chunk. tr = tr0 @ [Read chunk None] \<and> 2 \<le> length chunk \<and>
       last (exchanges tr) = ([0xa2], chunk)"
    if run: "fetchData sortSlice (recording io) dev (w0, []) =
      Some (Returns (items, Some (Errorf ''no measurement found'')) (wEnd, tr))"
  proof -
    from fetchData_run[OF run]
    have "fetchRun sortSlice dev tr (Inr (items, Some (Errorf ''no measurement found'')))"
      by simp
    from fetchRun_no_measurement_inv[OF this] obtain hs ds cs where
      tr: "tr = countTrace dev hs ds cs" and ne: "cs \<noteq> []"
      and em: "concat (butlast cs) = []" and long: "2 \<le> length (last cs)"
      by blast
    have "tr = (descTrace dev hs ds @ Wrote [0xa2] None # reads (butlast cs))
                 @ [Read (last cs) None]"
      using reads_snoc[OF ne] by (simp add: tr countTrace_def)
    moreover have "last (exchanges tr) = ([0xa2], last cs)"
      using concat_butlast_empty[OF ne em] by (simp add: tr exchanges_countTrace)
    ultimately show ?thesis using long by blast
  qed
  show ?thesis using a b by blast
qed

theorem getData_never_short_witness:
  "getData mockPort (replicate 128 0) 1 \<lparr>pending = [([], None), ([2, 0], None)], writeErrors = []\<rparr>
   = Some (Returns ((2, None), 2 # 0 # replicate 126 0) \<lparr>pending = [], writeErrors = []\<rparr>) \<and>
   (1::nat) \<le> 2 \<and>
   fetchData insertionSort (recording mockPort) ''/dev/ttyUSB0''
     (\<lparr>pending = [([0x55], None), (replicate 32 0x42, None), ([], None), ([2, 0], None)],
       writeErrors = []\<rparr>, [])
   = Some (Returns ([], Some (Errorf ''no measurement found''))
       (\<lparr>pending = [], writeErrors = []\<rparr>, shortTrace)) \<and>
   shortTrace = butlast shortTrace @ [Read [2, 0] None] \<and>
   last (exchanges shortTrace) = ([0xa2], [2, 0])"
proof -
  have t: "shortTrace = butlast shortTrace @ [Read [2, 0] None]"
    by (simp add: shortTrace_def)
  from getData_never_short[where io = mockPort and buf = "replicate 128 0" and sizeN = 1
      and w = "\<lparr>pending = [([], None), ([2, 0], None)], writeErrors = []\<rparr>"
      and n = 2 and e = None and buf' = "2 # 0 # replicate 126 0"
      and w' = "\<lparr>pending = [], writeErrors = []\<rparr>"
      and sortSlice = insertionSort and dev = "''/dev/ttyUSB0''"
      and ?w0.0 = "\<lparr>pending = [([0x55], None), (replicate 32 0x42, None), ([], None),
                              ([2, 0], None)], writeErrors = []\<rparr>"
      and items = "[]" and wEnd = "\<lparr>pending = [], writeErrors = []\<rparr>" and tr = shortTrace]
    short_read short_run
  obtain tr0 chunk where c: "shortTrace = tr0 @ [Read chunk None]"
      "last (exchanges shortTrace) = ([0xa2], chunk)"
    by auto
  from c(1) t have "chunk = [2, 0]" by (metis append1_eq_conv event.inject(3))
  then show ?thesis using short_read short_run t c(2) by simp
qed

end
